theory Spec2Isabelle
  imports Complex_Main
begin

section \<open>Data model of the exporters\<close>

text \<open>
  The repository holds three export routines: \<open>RockForgeExporter.exportSong\<close> in two
  revisions (the earlier one in \<open>src/midi-exporter.js\<close>, the later one, which tracks the
  last resolved sequencer, in \<open>src/unnamed/part_000\<close>) and
  \<open>SongDrumMachineExporter.exportSong\<close> (\<open>src/midi-exporter.js\<close>).

  JavaScript numbers are taken as exact rationals: every product and quotient the
  exporters compute is modelled without rounding error, and \<open>Math.round x\<close> is
  \<open>\<lfloor>x + 1/2\<rfloor>\<close>, which is HOL's \<open>round\<close>. The value \<open>NaN\<close> of a velocity is the value
  \<open>None\<close>. An object is a map, or, where the order of its keys is read
  (\<open>Object.keys\<close>, \<open>Object.entries\<close>), the list of its entries in that order. The
  arrangement string is a list of 8-bit characters, one token each. Instrument names are
  taken to be different from the property names every JavaScript object inherits.
  \<open>Math.random\<close> is a function \<open>rand\<close> from the number of calls made so far to the value
  returned by the next call; the state of an export counts the calls.
\<close>

type_synonym instrument = string
type_synonym step_grid = "instrument \<rightharpoonup> bool list"
type_synonym random_source = "nat \<Rightarrow> rat"

record sequencer =
  name :: string
  grid :: step_grid
  steps :: nat
  velocities :: "instrument \<rightharpoonup> int list"

record midi_note =
  pitch :: nat
  duration :: string
  startTick :: int
  velocity :: "int option"
  channel :: nat

record params =
  songStructure :: string
  sequencersData :: "(string \<times> sequencer) list"
  bpm :: nat
  INSTRUMENTS :: "instrument list"
  INSTRUMENT_MIDI_NOTES :: "instrument \<rightharpoonup> nat"
  FILL_INSTRUMENTS :: "instrument list"

record config = params +
  isHumanizeOn :: bool
  swingAmount :: rat
  timingHumanizeAmount :: rat
  velocityHumanizeAmount :: rat

datatype js_error = TypeError

text \<open>The regular expressions \<open>/^[1-9]$/\<close> and \<open>/^[A-Z]$/\<close> on a one-character string,
  and \<open>parseInt\<close> on a digit.\<close>

definition is_fill_digit :: "char \<Rightarrow> bool" where
  "is_fill_digit c = ((49::nat) \<le> of_char c \<and> of_char c \<le> (57::nat))"

definition is_upper_letter :: "char \<Rightarrow> bool" where
  "is_upper_letter c = ((65::nat) \<le> of_char c \<and> of_char c \<le> (90::nat))"

definition parseInt :: "char \<Rightarrow> nat" where
  "parseInt c = of_char c - 48"

text \<open>\<open>g[instrument] && g[instrument][step]\<close>: a missing row and a step beyond the row
  are both falsy.\<close>

definition cell_on :: "step_grid \<Rightarrow> instrument \<Rightarrow> nat \<Rightarrow> bool" where
  "cell_on g i s = (case g i of None \<Rightarrow> False | Some row \<Rightarrow> s < length row \<and> row ! s)"

text \<open>\<open>INSTRUMENT_MIDI_NOTES[instrument]\<close> read for its truthiness: a missing entry and
  the number 0 are both falsy.\<close>

definition truthy_note :: "(instrument \<rightharpoonup> nat) \<Rightarrow> instrument \<Rightarrow> nat option" where
  "truthy_note m i = (case m i of None \<Rightarrow> None | Some n \<Rightarrow> if n = 0 then None else Some n)"

text \<open>\<open>FILL_INSTRUMENTS[Math.floor(r * FILL_INSTRUMENTS.length)]\<close>; \<open>None\<close> is
  \<open>undefined\<close>.\<close>

definition randomInstrument :: "instrument list \<Rightarrow> rat \<Rightarrow> instrument option" where
  "randomInstrument fi r =
     (let k = \<lfloor>r * of_nat (length fi)\<rfloor>
      in if 0 \<le> k \<and> k < int (length fi) then Some (fi ! nat k) else None)"

text \<open>\<open>fillGrid[randomInstrument][i] = true\<close>: a \<open>TypeError\<close> when the grid has no row
  of that name.\<close>

definition strike :: "step_grid \<Rightarrow> instrument option \<Rightarrow> nat \<Rightarrow> js_error + step_grid" where
  "strike g oi i =
     (case oi of None \<Rightarrow> Inl TypeError
      | Some ins \<Rightarrow> (case g ins of None \<Rightarrow> Inl TypeError
                     | Some row \<Rightarrow> Inr (g(ins \<mapsto> row[i := True]))))"

text \<open>\<open>catalog.forEach(instrument => fillGrid[instrument] = Array(numSteps).fill(false))\<close>
  on the empty object.\<close>

fun blank_rows :: "instrument list \<Rightarrow> nat \<Rightarrow> step_grid \<Rightarrow> step_grid" where
  "blank_rows [] n g = g"
| "blank_rows (i # is) n g = blank_rows is n (g(i \<mapsto> replicate n False))"

section \<open>SongDrumMachineExporter\<close>

text \<open>\<open>src/midi-exporter.js\<close>, lines 121 to 274.\<close>

text \<open>What every export carries through its loop: the batches of notes added to the
  track, and the number of calls of \<open>Math.random\<close> made so far.\<close>

record track_state =
  track :: "midi_note list list"
  randomCalls :: nat

record export_state = track_state +
  currentTick :: nat

text \<open>The fill loop of lines 177 to 182: one call of \<open>Math.random\<close> decides whether step
  \<open>i\<close> is struck, a second one chooses the instrument.\<close>

function fill_steps ::
  "instrument list \<Rightarrow> random_source \<Rightarrow> nat \<Rightarrow> nat \<Rightarrow> step_grid \<Rightarrow> nat \<Rightarrow> js_error + step_grid \<times> nat"
where
  "fill_steps fi rand numSteps i g k =
     (if i < numSteps then
        (if rand k > 4 / 10 then
           (case strike g (randomInstrument fi (rand (k + 1))) i of
              Inl e \<Rightarrow> Inl e
            | Inr g' \<Rightarrow> fill_steps fi rand numSteps (i + 1) g' (k + 2))
         else fill_steps fi rand numSteps (i + 1) g (k + 1))
      else Inr (g, k))"
  by pat_completeness auto
termination
  by (relation "measure (\<lambda>(fi, rand, numSteps, i, g, k). numSteps - i)") auto

definition fillGrid ::
  "instrument list \<Rightarrow> instrument list \<Rightarrow> random_source \<Rightarrow> nat \<Rightarrow> nat \<Rightarrow> js_error + step_grid \<times> nat"
where
  "fillGrid catalog fi rand numSteps k =
     fill_steps fi rand numSteps 0 (blank_rows catalog numSteps Map.empty) k"

text \<open>Lines 212 to 215: the base velocity. A fill has no \<open>patternData\<close>; a step beyond
  the stored row reads \<open>undefined\<close> and rounds to \<open>NaN\<close>.\<close>

definition rescale :: "int \<Rightarrow> int" where
  "rescale stored = round ((of_int stored / 127) * 100 :: rat)"

definition baseVelocity :: "sequencer option \<Rightarrow> instrument \<Rightarrow> nat \<Rightarrow> int option" where
  "baseVelocity patternData i s =
     (case patternData of None \<Rightarrow> Some 100
      | Some p \<Rightarrow> (case velocities p i of None \<Rightarrow> Some 100
                   | Some row \<Rightarrow> if s < length row then Some (rescale (row ! s)) else None))"

text \<open>Lines 224, 229 and 236.\<close>

definition velocityVariation :: "config \<Rightarrow> rat \<Rightarrow> int" where
  "velocityVariation cfg r = round (((r - 1 / 2) * 2) * 20 * velocityHumanizeAmount cfg)"

definition timingVariation :: "config \<Rightarrow> nat \<Rightarrow> rat \<Rightarrow> int" where
  "timingVariation cfg ticksPerStep r =
     round (((r - 1 / 2) * 2) * (of_nat ticksPerStep * (1 / 4)) * timingHumanizeAmount cfg)"

definition swingDelay :: "config \<Rightarrow> nat \<Rightarrow> int" where
  "swingDelay cfg ticksPerStep = round (swingAmount cfg * 2 * of_nat ticksPerStep)"

text \<open>\<open>Math.max(1, Math.min(100, v))\<close>, which is \<open>NaN\<close> on \<open>NaN\<close>.\<close>

definition clamp_velocity :: "int option \<Rightarrow> int option" where
  "clamp_velocity v = map_option (\<lambda>x. max 1 (min 100 x)) v"

text \<open>The body of \<open>INSTRUMENTS.forEach\<close> at lines 208 to 250 for one instrument: the note
  pushed, if any, and the number of calls of \<open>Math.random\<close> afterwards. \<open>ticksPerStep\<close> is
  what the MIDI library returns for a sixteenth note; the library is not part of the
  repository, so the value is a parameter.\<close>

definition note_of ::
  "config \<Rightarrow> nat \<Rightarrow> random_source \<Rightarrow> sequencer option \<Rightarrow> step_grid \<Rightarrow> nat \<Rightarrow> nat \<Rightarrow>
   instrument \<Rightarrow> nat \<Rightarrow> midi_note option \<times> nat"
where
  "note_of cfg ticksPerStep rand patternData g tick s i k =
     (if cell_on g i s then
        (case truthy_note (INSTRUMENT_MIDI_NOTES cfg) i of
           None \<Rightarrow> (None, k)
         | Some midiNote \<Rightarrow>
            (let base = baseVelocity patternData i s;
                 hv = isHumanizeOn cfg \<and> velocityHumanizeAmount cfg > 0;
                 finalVelocity = (if hv then map_option (\<lambda>v. v + velocityVariation cfg (rand k)) base
                                  else base);
                 k1 = (if hv then k + 1 else k);
                 ht = isHumanizeOn cfg \<and> timingHumanizeAmount cfg > 0;
                 tickOffset = (if ht then timingVariation cfg ticksPerStep (rand k1) else 0);
                 k2 = (if ht then k1 + 1 else k1);
                 tickOffset = (if swingAmount cfg > 0 \<and> s mod 2 \<noteq> 0
                               then tickOffset + swingDelay cfg ticksPerStep else tickOffset)
             in (Some \<lparr>pitch = midiNote, duration = ''16'',
                       startTick = int tick + int (s * ticksPerStep) + tickOffset,
                       velocity = clamp_velocity finalVelocity, channel = 10\<rparr>, k2)))
      else (None, k))"

fun notesForThisStep ::
  "config \<Rightarrow> nat \<Rightarrow> random_source \<Rightarrow> sequencer option \<Rightarrow> step_grid \<Rightarrow> nat \<Rightarrow> nat \<Rightarrow>
   instrument list \<Rightarrow> nat \<Rightarrow> midi_note list \<times> nat"
where
  "notesForThisStep cfg ticksPerStep rand patternData g tick s [] k = ([], k)"
| "notesForThisStep cfg ticksPerStep rand patternData g tick s (i # is) k =
     (case note_of cfg ticksPerStep rand patternData g tick s i k of
        (None, k') \<Rightarrow> notesForThisStep cfg ticksPerStep rand patternData g tick s is k'
      | (Some n, k') \<Rightarrow>
          (case notesForThisStep cfg ticksPerStep rand patternData g tick s is k' of
             (ns, k'') \<Rightarrow> (n # ns, k'')))"

text \<open>The loop over the steps of one section (lines 205 to 256): a batch that is not
  empty is added to the track.\<close>

function step_loop ::
  "config \<Rightarrow> nat \<Rightarrow> random_source \<Rightarrow> sequencer option \<Rightarrow> step_grid \<Rightarrow> nat \<Rightarrow> nat \<Rightarrow>
   export_state \<Rightarrow> export_state"
where
  "step_loop cfg ticksPerStep rand patternData g numSteps s st =
     (if s < numSteps then
        (case notesForThisStep cfg ticksPerStep rand patternData g (currentTick st) s
                (INSTRUMENTS cfg) (randomCalls st) of
           (ns, k) \<Rightarrow>
             step_loop cfg ticksPerStep rand patternData g numSteps (s + 1)
               (st\<lparr>track := (if ns = [] then track st else track st @ [ns]),
                   randomCalls := k\<rparr>))
      else st)"
  by pat_completeness auto
termination
  by (relation "measure (\<lambda>(cfg, ticksPerStep, rand, patternData, g, numSteps, s, st). numSteps - s)")
     auto

text \<open>Lines 205 to 257: the steps of a section, then the cursor.\<close>

definition compile_section ::
  "config \<Rightarrow> nat \<Rightarrow> random_source \<Rightarrow> sequencer option \<Rightarrow> step_grid \<Rightarrow> nat \<Rightarrow>
   export_state \<Rightarrow> export_state"
where
  "compile_section cfg ticksPerStep rand patternData g numSteps st =
     (let st' = step_loop cfg ticksPerStep rand patternData g numSteps 0 st
      in st'\<lparr>currentTick := currentTick st' + numSteps * ticksPerStep\<rparr>)"

text \<open>\<open>Object.entries(sequencersData).find(([id, data]) => data.name === sectionIdentifier)\<close>.\<close>

definition find_entry :: "(string \<times> sequencer) list \<Rightarrow> char \<Rightarrow> (string \<times> sequencer) option" where
  "find_entry sd c = find (\<lambda>(sid, d). name d = [c]) sd"

text \<open>Lines 194 to 202: the look-ahead at the token after a named pattern.\<close>

definition look_ahead :: "nat \<Rightarrow> char option \<Rightarrow> nat" where
  "look_ahead numSteps nextIdentifier =
     (case nextIdentifier of None \<Rightarrow> numSteps
      | Some n \<Rightarrow> if is_fill_digit n then
                    (let fillLength = parseInt n
                     in if fillLength \<le> numSteps then numSteps - fillLength else numSteps)
                  else numSteps)"

text \<open>The callback of \<open>structureArray.forEach\<close> (lines 167 to 258) on one token;
  \<open>nextIdentifier\<close> is \<open>structureArray[index + 1]\<close> when \<open>index + 1\<close> is in range.\<close>

definition section_step ::
  "config \<Rightarrow> nat \<Rightarrow> random_source \<Rightarrow> char \<Rightarrow> char option \<Rightarrow> export_state \<Rightarrow>
   js_error + export_state"
where
  "section_step cfg ticksPerStep rand sectionIdentifier nextIdentifier st =
     (if is_fill_digit sectionIdentifier then
        (let numSteps = parseInt sectionIdentifier
         in case fillGrid (INSTRUMENTS cfg) (FILL_INSTRUMENTS cfg) rand numSteps (randomCalls st) of
              Inl e \<Rightarrow> Inl e
            | Inr (g, k) \<Rightarrow>
                Inr (compile_section cfg ticksPerStep rand None g numSteps (st\<lparr>randomCalls := k\<rparr>)))
      else
        (case find_entry (sequencersData cfg) sectionIdentifier of
           None \<Rightarrow> Inr st
         | Some (sid, patternData) \<Rightarrow>
             Inr (compile_section cfg ticksPerStep rand (Some patternData) (grid patternData)
                    (look_ahead (steps patternData) nextIdentifier) st)))"

fun compile_song ::
  "config \<Rightarrow> nat \<Rightarrow> random_source \<Rightarrow> string \<Rightarrow> export_state \<Rightarrow> js_error + export_state"
where
  "compile_song cfg ticksPerStep rand [] st = Inr st"
| "compile_song cfg ticksPerStep rand (c # cs) st =
     (case section_step cfg ticksPerStep rand c (case cs of [] \<Rightarrow> None | n # _ \<Rightarrow> Some n) st of
        Inl e \<Rightarrow> Inl e
      | Inr st' \<Rightarrow> compile_song cfg ticksPerStep rand cs st')"


text \<open>How an export ends: with an alert and a return; with an error that leaves the
  function (SongDrumMachineExporter has no \<open>try\<close>); with an error caught and shown in an
  alert (RockForgeExporter); or with the download of the track, given here as the final
  state of the loop.\<close>

datatype 'a outcome = Alert string | Throws js_error | CaughtAlert js_error | Download 'a

definition songdrum_alert :: string where
  "songdrum_alert = ''Please define a song structure and have at least one sequencer pattern.''"

definition SongDrumMachine_exportSong ::
  "config \<Rightarrow> nat \<Rightarrow> random_source \<Rightarrow> export_state outcome"
where
  "SongDrumMachine_exportSong cfg ticksPerStep rand =
     (if songStructure cfg = [] \<or> length (sequencersData cfg) = 0 then Alert songdrum_alert
      else (case compile_song cfg ticksPerStep rand (songStructure cfg)
                   \<lparr>track = [], randomCalls = 0, currentTick = 0\<rparr> of
              Inl e \<Rightarrow> Throws e
            | Inr st \<Rightarrow> Download st))"

section \<open>RockForgeExporter\<close>

text \<open>\<open>_generateFillPattern\<close>, the same in both revisions: every step is struck, on an
  instrument chosen by one call of \<open>Math.random\<close>.\<close>

definition allInstruments :: "instrument list" where
  "allInstruments =
     [''crash1'', ''crash2'', ''ride'', ''china'',
      ''tom1'', ''tom2'', ''tom3'', ''floor-tom'',
      ''hi-hat-open'', ''hi-hat-closed'', ''snare'', ''kick'']"

function generate_steps ::
  "instrument list \<Rightarrow> random_source \<Rightarrow> nat \<Rightarrow> nat \<Rightarrow> step_grid \<Rightarrow> nat \<Rightarrow> js_error + step_grid \<times> nat"
where
  "generate_steps fillInstruments rand numSteps i g k =
     (if i < numSteps then
        (case strike g (randomInstrument fillInstruments (rand k)) i of
           Inl e \<Rightarrow> Inl e
         | Inr g' \<Rightarrow> generate_steps fillInstruments rand numSteps (i + 1) g' (k + 1))
      else Inr (g, k))"
  by pat_completeness auto
termination
  by (relation "measure (\<lambda>(fillInstruments, rand, numSteps, i, g, k). numSteps - i)") auto

definition generateFillPattern ::
  "nat \<Rightarrow> instrument list \<Rightarrow> random_source \<Rightarrow> nat \<Rightarrow> js_error + step_grid \<times> nat"
where
  "generateFillPattern numSteps fillInstruments rand k =
     generate_steps fillInstruments rand numSteps 0 (blank_rows allInstruments numSteps Map.empty) k"

record rf_state = track_state +
  totalTicks :: nat

record rf_state_fixed = rf_state +
  lastValidSequencerId :: "string option"

text \<open>The note pushed for one instrument at one step (lines 89 to 97, lines 101 to 110 of
  the later revision): reading \<open>velocities[instrument][step]\<close> is a \<open>TypeError\<close> when the
  sequencer has no velocity row for the instrument, and \<open>NaN\<close> when the step is beyond
  the row.\<close>

definition rf_note_of ::
  "'a params_scheme \<Rightarrow> sequencer \<Rightarrow> step_grid \<Rightarrow> nat \<Rightarrow> nat \<Rightarrow> instrument \<Rightarrow>
   js_error + midi_note option"
where
  "rf_note_of p currentSequencerData gridToUse ticks s i =
     (if cell_on gridToUse i s then
        (case truthy_note (INSTRUMENT_MIDI_NOTES p) i of
           None \<Rightarrow> Inr None
         | Some n \<Rightarrow>
             (case velocities currentSequencerData i of
                None \<Rightarrow> Inl TypeError
              | Some row \<Rightarrow>
                  Inr (Some \<lparr>pitch = n, duration = ''16'',
                             startTick = int ticks + int (s * 128),
                             velocity = (if s < length row then Some (rescale (row ! s)) else None),
                             channel = 10\<rparr>)))
      else Inr None)"

fun rf_notesForThisStep ::
  "'a params_scheme \<Rightarrow> sequencer \<Rightarrow> step_grid \<Rightarrow> nat \<Rightarrow> nat \<Rightarrow> instrument list \<Rightarrow>
   js_error + midi_note list"
where
  "rf_notesForThisStep p cur g ticks s [] = Inr []"
| "rf_notesForThisStep p cur g ticks s (i # is) =
     (case rf_note_of p cur g ticks s i of
        Inl e \<Rightarrow> Inl e
      | Inr on \<Rightarrow>
          (case rf_notesForThisStep p cur g ticks s is of
             Inl e \<Rightarrow> Inl e
           | Inr ns \<Rightarrow> Inr (case on of None \<Rightarrow> ns | Some n \<Rightarrow> n # ns)))"

function rf_step_loop ::
  "'a params_scheme \<Rightarrow> sequencer \<Rightarrow> step_grid \<Rightarrow> nat \<Rightarrow> nat \<Rightarrow> 'b rf_state_scheme \<Rightarrow>
   js_error + 'b rf_state_scheme"
where
  "rf_step_loop p cur g numSteps s st =
     (if s < numSteps then
        (case rf_notesForThisStep p cur g (totalTicks st) s (INSTRUMENTS p) of
           Inl e \<Rightarrow> Inl e
         | Inr ns \<Rightarrow>
             rf_step_loop p cur g numSteps (s + 1)
               (st\<lparr>track := (if ns = [] then track st else track st @ [ns])\<rparr>))
      else Inr st)"
  by pat_completeness auto
termination
  by (relation "measure (\<lambda>(p, cur, g, numSteps, s, st). numSteps - s)") auto

text \<open>The step loop, then \<open>totalTicks += numSteps * ticksPerStep\<close> with the constant
  128.\<close>

definition rf_section ::
  "'a params_scheme \<Rightarrow> sequencer \<Rightarrow> step_grid \<Rightarrow> nat \<Rightarrow> 'b rf_state_scheme \<Rightarrow>
   js_error + 'b rf_state_scheme"
where
  "rf_section p cur g numSteps st =
     (case rf_step_loop p cur g numSteps 0 st of
        Inl e \<Rightarrow> Inl e
      | Inr st' \<Rightarrow> Inr (st'\<lparr>totalTicks := totalTicks st' + numSteps * 128\<rparr>))"

text \<open>\<open>Object.keys(sequencersData).find(key => sequencersData[key].name === item)\<close>, and
  \<open>sequencersData[id]\<close>, whose fields cannot be read when it is \<open>undefined\<close>.\<close>

definition find_key :: "(string \<times> sequencer) list \<Rightarrow> char \<Rightarrow> string option" where
  "find_key sd item =
     find (\<lambda>key. case map_of sd key of None \<Rightarrow> False | Some d \<Rightarrow> name d = [item]) (map fst sd)"

definition sequencer_at :: "(string \<times> sequencer) list \<Rightarrow> string \<Rightarrow> js_error + sequencer" where
  "sequencer_at sd sid = (case map_of sd sid of None \<Rightarrow> Inl TypeError | Some d \<Rightarrow> Inr d)"

text \<open>\<open>Object.keys(sequencersData)[0]\<close>.\<close>

definition first_key :: "(string \<times> sequencer) list \<Rightarrow> string option" where
  "first_key sd = (case sd of [] \<Rightarrow> None | (k, d) # _ \<Rightarrow> Some k)"

text \<open>The truthiness of an identifier: \<open>undefined\<close>, \<open>null\<close> and the empty string are
  falsy.\<close>

definition truthy_id :: "string option \<Rightarrow> string option" where
  "truthy_id oid = (case oid of None \<Rightarrow> None | Some sid \<Rightarrow> if sid = [] then None else Some sid)"

text \<open>The callback of \<open>songItems.forEach\<close> in \<open>src/midi-exporter.js\<close> (lines 59 to 104):
  a fill takes its velocities from the first sequencer.\<close>

definition rf_item :: "params \<Rightarrow> random_source \<Rightarrow> char \<Rightarrow> rf_state \<Rightarrow> js_error + rf_state" where
  "rf_item p rand item st =
     (if is_upper_letter item then
        (case truthy_id (find_key (sequencersData p) item) of
           None \<Rightarrow> Inr st
         | Some sequencerId \<Rightarrow>
             (case sequencer_at (sequencersData p) sequencerId of
                Inl e \<Rightarrow> Inl e
              | Inr cur \<Rightarrow> rf_section p cur (grid cur) (steps cur) st))
      else if is_fill_digit item then
        (let numSteps = parseInt item
         in case generateFillPattern numSteps (FILL_INSTRUMENTS p) rand (randomCalls st) of
              Inl e \<Rightarrow> Inl e
            | Inr (g, k) \<Rightarrow>
                (case truthy_id (first_key (sequencersData p)) of
                   None \<Rightarrow> Inr (st\<lparr>randomCalls := k\<rparr>)
                 | Some firstSequencerId \<Rightarrow>
                     (case sequencer_at (sequencersData p) firstSequencerId of
                        Inl e \<Rightarrow> Inl e
                      | Inr cur \<Rightarrow> rf_section p cur g numSteps (st\<lparr>randomCalls := k\<rparr>))))
      else Inr st)"

text \<open>The callback in the later revision, \<open>src/unnamed/part_000\<close> (lines 61 to 117): a
  fill takes its velocities from the sequencer resolved last, and from the first one when
  none has been resolved.\<close>

definition rf_item_fixed ::
  "params \<Rightarrow> random_source \<Rightarrow> char \<Rightarrow> rf_state_fixed \<Rightarrow> js_error + rf_state_fixed"
where
  "rf_item_fixed p rand item st =
     (if is_upper_letter item then
        (case truthy_id (find_key (sequencersData p) item) of
           None \<Rightarrow> Inr st
         | Some sequencerId \<Rightarrow>
             (case sequencer_at (sequencersData p) sequencerId of
                Inl e \<Rightarrow> Inl e
              | Inr cur \<Rightarrow>
                  rf_section p cur (grid cur) (steps cur)
                    (st\<lparr>lastValidSequencerId := Some sequencerId\<rparr>)))
      else if is_fill_digit item then
        (let numSteps = parseInt item
         in case generateFillPattern numSteps (FILL_INSTRUMENTS p) rand (randomCalls st) of
              Inl e \<Rightarrow> Inl e
            | Inr (g, k) \<Rightarrow>
                (case truthy_id (case truthy_id (lastValidSequencerId st) of
                                   None \<Rightarrow> first_key (sequencersData p)
                                 | Some l \<Rightarrow> Some l) of
                   None \<Rightarrow> Inr (st\<lparr>randomCalls := k\<rparr>)
                 | Some sequencerIdForFillSounds \<Rightarrow>
                     (case sequencer_at (sequencersData p) sequencerIdForFillSounds of
                        Inl e \<Rightarrow> Inl e
                      | Inr cur \<Rightarrow> rf_section p cur g numSteps (st\<lparr>randomCalls := k\<rparr>))))
      else Inr st)"

fun rf_items :: "params \<Rightarrow> random_source \<Rightarrow> string \<Rightarrow> rf_state \<Rightarrow> js_error + rf_state" where
  "rf_items p rand [] st = Inr st"
| "rf_items p rand (item # items) st =
     (case rf_item p rand item st of Inl e \<Rightarrow> Inl e | Inr st' \<Rightarrow> rf_items p rand items st')"

fun rf_items_fixed ::
  "params \<Rightarrow> random_source \<Rightarrow> string \<Rightarrow> rf_state_fixed \<Rightarrow> js_error + rf_state_fixed"
where
  "rf_items_fixed p rand [] st = Inr st"
| "rf_items_fixed p rand (item # items) st =
     (case rf_item_fixed p rand item st of
        Inl e \<Rightarrow> Inl e
      | Inr st' \<Rightarrow> rf_items_fixed p rand items st')"

text \<open>\<open>exportSong\<close> of both revisions. \<open>midiWriterDefined\<close> says whether
  \<open>window.MidiWriter\<close> is there; an error thrown inside \<open>try\<close> is caught and shown in an
  alert.\<close>

definition RockForge_exportSong :: "bool \<Rightarrow> params \<Rightarrow> random_source \<Rightarrow> rf_state outcome" where
  "RockForge_exportSong midiWriterDefined p rand =
     (if \<not> midiWriterDefined then Alert ''MIDI library is not ready yet.''
      else if songStructure p = [] then Alert ''Please enter a song structure to export.''
      else (case rf_items p rand (songStructure p)
                   \<lparr>track = [], randomCalls = 0, totalTicks = 0\<rparr> of
              Inl e \<Rightarrow> CaughtAlert e
            | Inr st \<Rightarrow> Download st))"

definition RockForge_exportSong_fixed ::
  "bool \<Rightarrow> params \<Rightarrow> random_source \<Rightarrow> rf_state_fixed outcome"
where
  "RockForge_exportSong_fixed midiWriterDefined p rand =
     (if \<not> midiWriterDefined then Alert ''MIDI library is not ready yet.''
      else if songStructure p = [] then Alert ''Please enter a song structure to export.''
      else (case rf_items_fixed p rand (songStructure p)
                   \<lparr>track = [], randomCalls = 0, totalTicks = 0, lastValidSequencerId = None\<rparr> of
              Inl e \<Rightarrow> CaughtAlert e
            | Inr st \<Rightarrow> Download st))"

section \<open>Observations and example inputs\<close>

text \<open>What an outcome shows: the notes handed to the writer, in order, and how far the
  time cursor has moved. An export that ends in an alert or an error has written no track
  and has moved no cursor.\<close>

definition emitted :: "'a track_state_scheme outcome \<Rightarrow> midi_note list" where
  "emitted out = (case out of Download st \<Rightarrow> concat (track st) | _ \<Rightarrow> [])"

definition elapsed :: "export_state outcome \<Rightarrow> nat" where
  "elapsed out = (case out of Download st \<Rightarrow> currentTick st | _ \<Rightarrow> 0)"

text \<open>Two sources of random numbers, and patterns, configurations and start states to
  run the exporters on.\<close>

definition half_source :: random_source where
  "half_source = (\<lambda>k. 1 / 2)"

definition zero_source :: random_source where
  "zero_source = (\<lambda>k. 0)"

definition demo_A :: sequencer where
  "demo_A = \<lparr>name = ''A'',
     grid = [''kick'' \<mapsto> [True, False, False, True], ''snare'' \<mapsto> [False, True, False, True]],
     steps = 4,
     velocities = [''kick'' \<mapsto> [64, 64, 64, 64], ''snare'' \<mapsto> [127, 0, 127, 90]]\<rparr>"

definition demo_config :: config where
  "demo_config = \<lparr>songStructure = ''A2'', sequencersData = [(''seq-1'', demo_A)], bpm = 120,
     INSTRUMENTS = [''kick'', ''snare''],
     INSTRUMENT_MIDI_NOTES = [''kick'' \<mapsto> 36, ''snare'' \<mapsto> 38],
     FILL_INSTRUMENTS = [''snare''], isHumanizeOn = False, swingAmount = 1 / 10,
     timingHumanizeAmount = 1, velocityHumanizeAmount = 1\<rparr>"

definition demo_B :: sequencer where
  "demo_B = \<lparr>name = ''B'',
     grid = [''kick'' \<mapsto> [False, False], ''snare'' \<mapsto> [False, True]],
     steps = 2,
     velocities = [''kick'' \<mapsto> [100, 100], ''snare'' \<mapsto> [80, 80]]\<rparr>"

definition two_patterns :: config where
  "two_patterns = demo_config\<lparr>songStructure := ''AXB'',
     sequencersData := [(''seq-1'', demo_A), (''seq-2'', demo_B)]\<rparr>"

definition start_state :: export_state where
  "start_state = \<lparr>track = [], randomCalls = 0, currentTick = 0\<rparr>"

definition jitter_config :: config where
  "jitter_config = demo_config\<lparr>songStructure := ''A'', isHumanizeOn := True, swingAmount := 0\<rparr>"

definition muted_snare :: config where
  "muted_snare = demo_config\<lparr>INSTRUMENT_MIDI_NOTES := [''kick'' \<mapsto> 36, ''snare'' \<mapsto> 0]\<rparr>"

definition fill_first_params :: params where
  "fill_first_params = \<lparr>songStructure = ''1A'', sequencersData = [(''seq-1'', demo_A)], bpm = 120,
     INSTRUMENTS = [''kick'', ''snare''],
     INSTRUMENT_MIDI_NOTES = [''kick'' \<mapsto> 36, ''snare'' \<mapsto> 0],
     FILL_INSTRUMENTS = [''kick'']\<rparr>"




section \<open>Loops\<close>

text \<open>The invariant of both fill loops before step \<open>i\<close>: the grid has a row of length
  \<open>n\<close> for each instrument of the catalog and no other row, only steps before \<open>i\<close> are
  struck, only on fill instruments, and no step is struck on two instruments.\<close>

definition fill_inv :: "instrument list \<Rightarrow> instrument list \<Rightarrow> nat \<Rightarrow> nat \<Rightarrow> step_grid \<Rightarrow> bool" where
  "fill_inv catalog fi n i g \<longleftrightarrow>
     dom g = set catalog \<and> (\<forall>a row. g a = Some row \<longrightarrow> length row = n)
     \<and> (\<forall>a s. cell_on g a s \<longrightarrow> s < i \<and> a \<in> set fi)
     \<and> (\<forall>a b s. cell_on g a s \<longrightarrow> cell_on g b s \<longrightarrow> a = b)"



text \<open>The equations of the four loops are unfolded by hand, one round at a time.\<close>

declare fill_steps.simps [simp del] generate_steps.simps [simp del]

declare step_loop.simps [simp del] rf_step_loop.simps [simp del]

section \<open>Velocity rescaling\<close>

lemma rescale_div: "rescale v = (200 * v + 127) div 254"
proof -
  have "(of_int v / 127) * 100 + 1 / 2 = (of_int (200 * v + 127) / of_int 254 :: rat)"
    by (simp add: field_simps)
  then show ?thesis
    unfolding rescale_def round_def by (simp only: floor_divide_of_int_eq)
qed

lemma rescale_mono: "v \<le> w \<Longrightarrow> rescale v \<le> rescale w"
  unfolding rescale_def by (intro round_mono) (simp add: divide_right_mono)

section \<open>Input errors\<close>

text \<open>
  Claim C7. When the arrangement is empty or there is no sequencer pattern,
  SongDrumMachineExporter shows one alert and returns: no event is emitted and the time
  cursor has not moved from zero.
\<close>

theorem empty_input_aborts:
  assumes "songStructure cfg = [] \<or> sequencersData cfg = []"
  shows "SongDrumMachine_exportSong cfg ticksPerStep rand = Alert songdrum_alert
         \<and> emitted (SongDrumMachine_exportSong cfg ticksPerStep rand) = []
         \<and> elapsed (SongDrumMachine_exportSong cfg ticksPerStep rand) = 0"
  using assms by (auto simp: SongDrumMachine_exportSong_def emitted_def elapsed_def)

theorem empty_input_aborts_witness:
  "SongDrumMachine_exportSong (demo_config\<lparr>sequencersData := []\<rparr>) 128 half_source = Alert songdrum_alert
   \<and> SongDrumMachine_exportSong (demo_config\<lparr>songStructure := []\<rparr>) 128 half_source = Alert songdrum_alert"
  using empty_input_aborts [of "demo_config\<lparr>sequencersData := []\<rparr>" 128 half_source]
        empty_input_aborts [of "demo_config\<lparr>songStructure := []\<rparr>" 128 half_source]
  by simp

section \<open>Synthesized fill grids\<close>

lemma blank_rows_apply:
  "blank_rows is n g a = (if a \<in> set is then Some (replicate n False) else g a)"
  by (induction "is" arbitrary: g) auto

lemma cell_on_blank: "\<not> cell_on (blank_rows is n Map.empty) a s"
  by (simp add: cell_on_def blank_rows_apply)

lemma fill_inv_blank: "fill_inv catalog fi n 0 (blank_rows catalog n Map.empty)"
  unfolding fill_inv_def
  by (auto simp: cell_on_blank blank_rows_apply dom_def split: if_splits)

lemma randomInstrument_in:
  assumes "fi \<noteq> []" "0 \<le> r" "r < 1"
  shows "\<exists>a \<in> set fi. randomInstrument fi r = Some a"
proof -
  let ?k = "\<lfloor>r * of_nat (length fi)\<rfloor>"
  have pos: "(0::rat) < of_nat (length fi)" using assms(1) by simp
  have "0 \<le> r * of_nat (length fi)" using assms(2) by simp
  then have k0: "0 \<le> ?k" by simp
  have "r * of_nat (length fi) < 1 * of_nat (length fi)"
    using assms(3) pos by (intro mult_strict_right_mono)
  then have "r * of_nat (length fi) < of_int (int (length fi))" by simp
  then have k1: "?k < int (length fi)" by (simp only: floor_less_iff)
  from k0 k1 have "nat ?k < length fi" by linarith
  then have "fi ! nat ?k \<in> set fi" by simp
  with k0 k1 show ?thesis by (simp add: randomInstrument_def Let_def)
qed

lemma cell_on_strike:
  assumes "g a = Some row"
  shows "cell_on (g(a \<mapsto> row[i := True])) b s = (cell_on g b s \<or> (b = a \<and> s = i \<and> i < length row))"
proof (cases "s = i")
  case True
  with assms show ?thesis by (auto simp: cell_on_def)
next
  case False
  with assms show ?thesis by (auto simp: cell_on_def)
qed

lemma strike_inv:
  assumes "fill_inv catalog fi n i g" "i < n" "a \<in> set fi" "set fi \<subseteq> set catalog"
  shows "\<exists>g'. strike g (Some a) i = Inr g' \<and> fill_inv catalog fi n (Suc i) g' \<and> cell_on g' a i
              \<and> (\<forall>b s. cell_on g b s \<longrightarrow> cell_on g' b s)"
proof -
  from assms have "a \<in> dom g" by (auto simp: fill_inv_def)
  then obtain row where row: "g a = Some row" by auto
  with assms(1) have len: "length row = n" by (simp add: fill_inv_def)
  let ?g = "g(a \<mapsto> row[i := True])"
  have s: "strike g (Some a) i = Inr ?g" by (simp add: strike_def row)
  have c: "\<And>b s. cell_on ?g b s = (cell_on g b s \<or> (b = a \<and> s = i))"
    using cell_on_strike [of g a row] row len assms(2) by simp
  have d: "dom ?g = set catalog" using assms(1) \<open>a \<in> dom g\<close> by (auto simp: fill_inv_def)
  have l: "\<forall>b r. ?g b = Some r \<longrightarrow> length r = n"
    using assms(1) len by (auto simp: fill_inv_def)
  have old: "\<And>b s. cell_on g b s \<Longrightarrow> s < i \<and> b \<in> set fi"
    using assms(1) by (simp add: fill_inv_def)
  have uniq: "\<And>b b' s. cell_on g b s \<Longrightarrow> cell_on g b' s \<Longrightarrow> b = b'"
    using assms(1) by (simp add: fill_inv_def)
  have "fill_inv catalog fi n (Suc i) ?g"
    unfolding fill_inv_def c
    using d l old uniq assms(3) by (intro conjI; fastforce)
  with s c show ?thesis by simp
qed

lemma fill_inv_Suc: "fill_inv catalog fi n i g \<Longrightarrow> fill_inv catalog fi n (Suc i) g"
  unfolding fill_inv_def by (intro conjI; fastforce)

lemma fill_steps_inv:
  "fi \<noteq> [] \<Longrightarrow> set fi \<subseteq> set catalog \<Longrightarrow> \<forall>j. 0 \<le> rand j \<and> rand j < 1 \<Longrightarrow>
   fill_inv catalog fi n i g \<Longrightarrow>
   \<exists>g' k'. fill_steps fi rand n i g k = Inr (g', k') \<and> fill_inv catalog fi n (max i n) g'"
proof (induction fi rand n i g k rule: fill_steps.induct)
  case (1 fi rand numSteps i g k)
  note inv = \<open>fill_inv catalog fi numSteps i g\<close>
  show ?case
  proof (cases "i < numSteps")
    case False
    with inv show ?thesis by (simp add: fill_steps.simps max_def)
  next
    case True
    then have m: "max (i + 1) numSteps = max i numSteps" by simp
    show ?thesis
    proof (cases "rand k > 4 / 10")
      case hit: True
      obtain a where a: "a \<in> set fi" "randomInstrument fi (rand (k + 1)) = Some a"
        using randomInstrument_in [of fi "rand (k + 1)"] "1.prems" by auto
      obtain g' where g': "strike g (Some a) i = Inr g'" "fill_inv catalog fi numSteps (Suc i) g'"
        using strike_inv [OF inv True a(1)] "1.prems" by auto
      have "\<exists>g'' k'. fill_steps fi rand numSteps (i + 1) g' (k + 2) = Inr (g'', k')
                \<and> fill_inv catalog fi numSteps (max (i + 1) numSteps) g''"
        using "1.IH"(1) [OF True hit _ "1.prems"(1,2,3), of g'] g' a by simp
      then show ?thesis
        using True hit a g' m by (subst fill_steps.simps) simp
    next
      case miss: False
      have "\<exists>g'' k'. fill_steps fi rand numSteps (i + 1) g (k + 1) = Inr (g'', k')
                \<and> fill_inv catalog fi numSteps (max (i + 1) numSteps) g''"
        using "1.IH"(2) [OF True miss "1.prems"(1,2,3)] fill_inv_Suc [OF inv] by simp
      then show ?thesis
        using True miss m by (subst fill_steps.simps) simp
    qed
  qed
qed


lemma generate_steps_inv:
  "fi \<noteq> [] \<Longrightarrow> set fi \<subseteq> set catalog \<Longrightarrow> \<forall>j. 0 \<le> rand j \<and> rand j < 1 \<Longrightarrow>
   fill_inv catalog fi n i g \<Longrightarrow> \<forall>s<i. \<exists>a. cell_on g a s \<Longrightarrow>
   \<exists>g' k'. generate_steps fi rand n i g k = Inr (g', k') \<and> fill_inv catalog fi n (max i n) g'
           \<and> (\<forall>s<max i n. \<exists>a. cell_on g' a s)"
proof (induction fi rand n i g k rule: generate_steps.induct)
  case (1 fi rand numSteps i g k)
  note inv = \<open>fill_inv catalog fi numSteps i g\<close>
  note struck = \<open>\<forall>s<i. \<exists>a. cell_on g a s\<close>
  show ?case
  proof (cases "i < numSteps")
    case False
    with inv struck show ?thesis by (simp add: generate_steps.simps max_def)
  next
    case True
    then have m: "max (i + 1) numSteps = max i numSteps" by simp
    obtain a where a: "a \<in> set fi" "randomInstrument fi (rand k) = Some a"
      using randomInstrument_in [of fi "rand k"] "1.prems" by auto
    obtain g' where g': "strike g (Some a) i = Inr g'" "fill_inv catalog fi numSteps (Suc i) g'"
        "cell_on g' a i" "\<forall>b s. cell_on g b s \<longrightarrow> cell_on g' b s"
      using strike_inv [OF inv True a(1)] "1.prems" by auto
    have "\<forall>s<i + 1. \<exists>b. cell_on g' b s"
    proof (intro allI impI)
      fix s assume "s < i + 1"
      then consider "s < i" | "s = i" by linarith
      then show "\<exists>b. cell_on g' b s"
        using struck g'(3,4) by cases blast+
    qed
    then have "\<exists>g'' k'. generate_steps fi rand numSteps (i + 1) g' (k + 1) = Inr (g'', k')
                \<and> fill_inv catalog fi numSteps (max (i + 1) numSteps) g''
                \<and> (\<forall>s<max (i + 1) numSteps. \<exists>a. cell_on g'' a s)"
      using "1.IH" [OF True _ "1.prems"(1,2,3), of g'] g' a by simp
    then show ?thesis
      using True a g' m by (subst generate_steps.simps) simp
  qed
qed

lemma fillGrid_ok:
  assumes "fi \<noteq> []" "set fi \<subseteq> set catalog" "\<forall>j. 0 \<le> rand j \<and> rand j < 1"
  shows "\<exists>g k'. fillGrid catalog fi rand n k = Inr (g, k') \<and> fill_inv catalog fi n n g"
  using fill_steps_inv [OF assms fill_inv_blank, of n k] by (simp add: fillGrid_def)

lemma generateFillPattern_ok:
  assumes "fi \<noteq> []" "set fi \<subseteq> set allInstruments" "\<forall>j. 0 \<le> rand j \<and> rand j < 1"
  shows "\<exists>g k'. generateFillPattern n fi rand k = Inr (g, k') \<and> fill_inv allInstruments fi n n g
           \<and> (\<forall>s<n. \<exists>a. cell_on g a s)"
  using generate_steps_inv [OF assms fill_inv_blank, of n k] by (simp add: generateFillPattern_def)

text \<open>
  Claim C9. For a fill-instrument list that is not empty and lies within the catalog, and
  random numbers in \<open>[0, 1)\<close>, both generators return a grid (no \<open>TypeError\<close>) that gives
  every instrument of the catalog a row of exactly \<open>n\<close> booleans; a struck cell is always on
  a fill instrument; the generator of SongDrumMachineExporter, whose catalog is
  \<open>INSTRUMENTS\<close>, strikes at most one instrument at a step, and \<open>_generateFillPattern\<close> of
  RockForgeExporter, whose catalog is its own list of twelve, strikes exactly one at every
  step below \<open>n\<close>.
\<close>

theorem fill_grid_shape:
  assumes "fi \<noteq> []" and "\<forall>j. 0 \<le> rand j \<and> rand j < 1"
  shows "(set fi \<subseteq> set catalog \<longrightarrow>
           (\<exists>g k'. fillGrid catalog fi rand n k = Inr (g, k')
              \<and> (\<forall>a \<in> set catalog. \<exists>row. g a = Some row \<and> length row = n)
              \<and> (\<forall>s a b. cell_on g a s \<and> cell_on g b s \<longrightarrow> a = b)
              \<and> (\<forall>s a. cell_on g a s \<longrightarrow> a \<in> set fi)))
       \<and> (set fi \<subseteq> set allInstruments \<longrightarrow>
           (\<exists>g k'. generateFillPattern n fi rand k = Inr (g, k')
              \<and> (\<forall>a \<in> set allInstruments. \<exists>row. g a = Some row \<and> length row = n)
              \<and> (\<forall>s<n. \<exists>a. cell_on g a s \<and> (\<forall>b. cell_on g b s \<longrightarrow> b = a))
              \<and> (\<forall>s a. cell_on g a s \<longrightarrow> a \<in> set fi)))"
proof (intro conjI impI)
  assume sub: "set fi \<subseteq> set catalog"
  obtain g k' where g: "fillGrid catalog fi rand n k = Inr (g, k')" "fill_inv catalog fi n n g"
    using fillGrid_ok [OF assms(1) sub assms(2)] by blast
  have rows: "\<forall>a \<in> set catalog. \<exists>row. g a = Some row \<and> length row = n"
    using g(2) unfolding fill_inv_def by (metis domD)
  have one: "\<forall>s a b. cell_on g a s \<and> cell_on g b s \<longrightarrow> a = b"
    using g(2) unfolding fill_inv_def by blast
  have mem: "\<forall>s a. cell_on g a s \<longrightarrow> a \<in> set fi"
    using g(2) unfolding fill_inv_def by blast
  from g(1) rows one mem
  show "\<exists>g k'. fillGrid catalog fi rand n k = Inr (g, k')
              \<and> (\<forall>a \<in> set catalog. \<exists>row. g a = Some row \<and> length row = n)
              \<and> (\<forall>s a b. cell_on g a s \<and> cell_on g b s \<longrightarrow> a = b)
              \<and> (\<forall>s a. cell_on g a s \<longrightarrow> a \<in> set fi)"
    by blast
next
  assume sub: "set fi \<subseteq> set allInstruments"
  obtain g k' where g: "generateFillPattern n fi rand k = Inr (g, k')"
      "fill_inv allInstruments fi n n g" "\<forall>s<n. \<exists>a. cell_on g a s"
    using generateFillPattern_ok [OF assms(1) sub assms(2)] by blast
  have rows: "\<forall>a \<in> set allInstruments. \<exists>row. g a = Some row \<and> length row = n"
    using g(2) unfolding fill_inv_def by (metis domD)
  have one: "\<forall>s a b. cell_on g a s \<longrightarrow> cell_on g b s \<longrightarrow> a = b"
    using g(2) unfolding fill_inv_def by blast
  have mem: "\<forall>s a. cell_on g a s \<longrightarrow> a \<in> set fi"
    using g(2) unfolding fill_inv_def by blast
  have ex1: "\<forall>s<n. \<exists>a. cell_on g a s \<and> (\<forall>b. cell_on g b s \<longrightarrow> b = a)"
    using g(3) one by blast
  from g(1) rows ex1 mem
  show "\<exists>g k'. generateFillPattern n fi rand k = Inr (g, k')
              \<and> (\<forall>a \<in> set allInstruments. \<exists>row. g a = Some row \<and> length row = n)
              \<and> (\<forall>s<n. \<exists>a. cell_on g a s \<and> (\<forall>b. cell_on g b s \<longrightarrow> b = a))
              \<and> (\<forall>s a. cell_on g a s \<longrightarrow> a \<in> set fi)"
    by blast
qed

theorem fill_grid_shape_witness:
  "fillGrid [''kick'', ''snare'', ''tom1''] [''snare'', ''tom1''] half_source 3 0 \<noteq> Inl TypeError
   \<and> generateFillPattern 3 [''snare'', ''tom1''] half_source 0 \<noteq> Inl TypeError"
proof -
  have h: "[''snare'', ''tom1''] \<noteq> []" "\<forall>j. 0 \<le> half_source j \<and> half_source j < 1"
    "set [''snare'', ''tom1''] \<subseteq> set [''kick'', ''snare'', ''tom1'']"
    "set [''snare'', ''tom1''] \<subseteq> set allInstruments"
    by (simp_all add: half_source_def allInstruments_def)
  show ?thesis
    using fill_grid_shape [OF h(1,2), of "[''kick'', ''snare'', ''tom1'']" 3 0] h(3,4) by force
qed

section \<open>Look-ahead at a fill\<close>

lemma step_loop_currentTick:
  "currentTick (step_loop cfg ticksPerStep rand patternData g numSteps s st) = currentTick st"
proof (induction cfg ticksPerStep rand patternData g numSteps s st rule: step_loop.induct)
  case (1 cfg ticksPerStep rand patternData g numSteps s st)
  show ?case
  proof (cases "s < numSteps")
    case False
    then show ?thesis by (simp add: step_loop.simps)
  next
    case True
    obtain ns k where nk:
      "notesForThisStep cfg ticksPerStep rand patternData g (currentTick st) s
         (INSTRUMENTS cfg) (randomCalls st) = (ns, k)"
      by (cases "notesForThisStep cfg ticksPerStep rand patternData g (currentTick st) s
         (INSTRUMENTS cfg) (randomCalls st)")
    show ?thesis
      using "1.IH" [OF True nk [symmetric]] True nk
      by (subst step_loop.simps) simp
  qed
qed

lemma compile_section_currentTick:
  "currentTick (compile_section cfg ticksPerStep rand patternData g numSteps st)
     = currentTick st + numSteps * ticksPerStep"
  by (simp add: compile_section_def Let_def step_loop_currentTick)

lemma look_ahead_fill:
  "is_fill_digit d \<Longrightarrow>
   look_ahead n (Some d) = (if parseInt d \<le> n then n - parseInt d else n)"
  by (simp add: look_ahead_def Let_def)

section \<open>Tokens that resolve to nothing\<close>

lemma section_step_unknown:
  assumes "\<not> is_fill_digit c" and "find_entry (sequencersData cfg) c = None"
  shows "section_step cfg ticksPerStep rand c nxt st = Inr st"
  using assms by (simp add: section_step_def)

lemma section_step_next_not_fill:
  assumes "\<not> is_fill_digit c"
  shows "section_step cfg ticksPerStep rand x (Some c) st = section_step cfg ticksPerStep rand x None st"
proof -
  have la: "\<And>n. look_ahead n (Some c) = look_ahead n None"
    using assms by (simp add: look_ahead_def)
  show ?thesis
    unfolding section_step_def la by (rule refl)
qed

lemma compile_song_skip:
  assumes "\<not> is_fill_digit c" and "find_entry (sequencersData cfg) c = None"
  shows "compile_song cfg ticksPerStep rand (pre @ c # post) st =
           (case compile_song cfg ticksPerStep rand pre st of
              Inl e \<Rightarrow> Inl e
            | Inr st' \<Rightarrow> compile_song cfg ticksPerStep rand post st')"
proof (induction pre arbitrary: st)
  case Nil
  show ?case using section_step_unknown [OF assms] by simp
next
  case (Cons x pre)
  show ?case
  proof (cases pre)
    case Nil
    then show ?thesis
      using section_step_next_not_fill [OF assms(1)] section_step_unknown [OF assms]
      by (simp split: sum.splits)
  next
    case (Cons y ys)
    then show ?thesis
      using Cons.IH by (simp split: sum.splits)
  qed
qed


text \<open>
  Claim C6. In SongDrumMachineExporter, a token that is not a digit 1 to 9 and is the name of
  no pattern leaves the state of the export as it is: no note is added to the track and
  the cursor does not move. An arrangement with such a token between \<open>pre\<close> and \<open>post\<close> is
  compiled as \<open>pre\<close> followed by \<open>post\<close>, which starts at the very state \<open>pre\<close> ended in.
\<close>

theorem unknown_token_skipped:
  assumes "\<not> is_fill_digit c" and "find_entry (sequencersData cfg) c = None"
  shows "section_step cfg ticksPerStep rand c nxt st = Inr st
       \<and> compile_song cfg ticksPerStep rand (pre @ c # post) st =
           (case compile_song cfg ticksPerStep rand pre st of
              Inl e \<Rightarrow> Inl e
            | Inr st' \<Rightarrow> compile_song cfg ticksPerStep rand post st')"
  using section_step_unknown [OF assms] compile_song_skip [OF assms] by simp

theorem unknown_token_skipped_witness:
  "section_step two_patterns 128 half_source CHR ''X'' (Some CHR ''B'') start_state = Inr start_state
   \<and> compile_song two_patterns 128 half_source ''AXB'' start_state =
       (case compile_song two_patterns 128 half_source ''A'' start_state of
          Inl e \<Rightarrow> Inl e
        | Inr st' \<Rightarrow> compile_song two_patterns 128 half_source ''B'' st')"
proof -
  have h: "\<not> is_fill_digit CHR ''X''"
    "find_entry (sequencersData two_patterns) CHR ''X'' = None"
    by (simp_all add: is_fill_digit_def find_entry_def two_patterns_def demo_A_def demo_B_def)
  show ?thesis
    using unknown_token_skipped [OF h, of 128 half_source "Some CHR ''B''" start_state "''A''" "''B''"]
    by simp
qed

section \<open>A pattern followed by a fill\<close>

lemma section_step_total:
  assumes "FILL_INSTRUMENTS cfg \<noteq> []" and "set (FILL_INSTRUMENTS cfg) \<subseteq> set (INSTRUMENTS cfg)"
    and "\<forall>j. 0 \<le> rand j \<and> rand j < 1"
  shows "\<exists>st'. section_step cfg ticksPerStep rand c nxt st = Inr st'"
proof (cases "is_fill_digit c")
  case True
  obtain g k where
    "fillGrid (INSTRUMENTS cfg) (FILL_INSTRUMENTS cfg) rand (parseInt c) (randomCalls st) = Inr (g, k)"
    using fillGrid_ok [OF assms] by blast
  with True show ?thesis by (simp add: section_step_def Let_def)
next
  case False
  then show ?thesis
    by (cases "find_entry (sequencersData cfg) c") (auto simp: section_step_def)
qed

lemma compile_song_total:
  assumes "FILL_INSTRUMENTS cfg \<noteq> []" and "set (FILL_INSTRUMENTS cfg) \<subseteq> set (INSTRUMENTS cfg)"
    and "\<forall>j. 0 \<le> rand j \<and> rand j < 1"
  shows "\<exists>st'. compile_song cfg ticksPerStep rand cs st = Inr st'"
proof (induction cs arbitrary: st)
  case Nil
  show ?case by simp
next
  case (Cons c cs)
  obtain st1 where
    "section_step cfg ticksPerStep rand c (case cs of [] \<Rightarrow> None | n # _ \<Rightarrow> Some n) st = Inr st1"
    using section_step_total [OF assms] by blast
  with Cons.IH [of st1] show ?case by simp
qed

lemma compile_song_before_pattern:
  assumes "\<not> is_fill_digit c"
  shows "compile_song cfg ticksPerStep rand (pre @ c # post) st =
           (case compile_song cfg ticksPerStep rand pre st of
              Inl e \<Rightarrow> Inl e
            | Inr st0 \<Rightarrow> compile_song cfg ticksPerStep rand (c # post) st0)"
proof (induction pre arbitrary: st)
  case Nil
  show ?case by simp
next
  case (Cons x pre)
  show ?case
  proof (cases pre)
    case Nil
    have "section_step cfg ticksPerStep rand x (Some c) st = section_step cfg ticksPerStep rand x None st"
      by (rule section_step_next_not_fill [OF assms])
    with Nil show ?thesis
      by (cases "section_step cfg ticksPerStep rand x None st") simp_all
  next
    case (Cons y ys)
    show ?thesis
    proof (cases "section_step cfg ticksPerStep rand x (Some y) st")
      case (Inl e)
      with Cons show ?thesis by simp
    next
      case (Inr st1)
      with Cons Cons.IH [of st1] show ?thesis by simp
    qed
  qed
qed

lemma note_of_pitch:
  "map_option pitch (fst (note_of cfg ticksPerStep rand patternData g tick s i k))
     = (if cell_on g i s then truthy_note (INSTRUMENT_MIDI_NOTES cfg) i else None)"
proof (cases "cell_on g i s")
  case False
  then show ?thesis by (simp add: note_of_def)
next
  case True
  show ?thesis
  proof (cases "truthy_note (INSTRUMENT_MIDI_NOTES cfg) i")
    case None
    with True show ?thesis by (simp add: note_of_def)
  next
    case (Some m)
    with True show ?thesis by (simp add: note_of_def Let_def)
  qed
qed

lemma notesForThisStep_pitches:
  "map pitch (fst (notesForThisStep cfg ticksPerStep rand patternData g tick s is k))
     = List.map_filter (\<lambda>i. if cell_on g i s then truthy_note (INSTRUMENT_MIDI_NOTES cfg) i else None) is"
proof -
  define f where "f = (\<lambda>i. if cell_on g i s then truthy_note (INSTRUMENT_MIDI_NOTES cfg) i else None)"
  have "map pitch (fst (notesForThisStep cfg ticksPerStep rand patternData g tick s is k))
          = List.map_filter f is"
  proof (induction "is" arbitrary: k)
    case Nil
    show ?case by (simp add: List.map_filter_simps)
  next
    case (Cons i "is")
    obtain on k1 where a: "note_of cfg ticksPerStep rand patternData g tick s i k = (on, k1)"
      by (cases "note_of cfg ticksPerStep rand patternData g tick s i k")
    obtain ns k2 where b: "notesForThisStep cfg ticksPerStep rand patternData g tick s is k1 = (ns, k2)"
      by (cases "notesForThisStep cfg ticksPerStep rand patternData g tick s is k1")
    have p: "f i = map_option pitch on"
      using note_of_pitch [of cfg ticksPerStep rand patternData g tick s i k] a
      by (simp add: f_def)
    have ih: "map pitch ns = List.map_filter f is"
      using Cons.IH [of k1] b by simp
    show ?case
    proof (cases on)
      case None
      with a b p ih show ?thesis by (simp add: List.map_filter_simps)
    next
      case (Some n)
      with a b p ih show ?thesis by (simp add: List.map_filter_simps)
    qed
  qed
  then show ?thesis by (simp only: f_def)
qed

lemma step_loop_pitches:
  "map pitch (concat (track (step_loop cfg ticksPerStep rand patternData g numSteps s st)))
     = map pitch (concat (track st))
       @ concat (map (\<lambda>s. List.map_filter
                    (\<lambda>i. if cell_on g i s then truthy_note (INSTRUMENT_MIDI_NOTES cfg) i else None)
                    (INSTRUMENTS cfg)) [s..<numSteps])"
proof (induction "numSteps - s" arbitrary: s st)
  case 0
  then show ?case by (simp add: step_loop.simps)
next
  case (Suc d)
  then have lt: "s < numSteps" and d: "d = numSteps - (s + 1)" by simp_all
  obtain ns k where nk:
    "notesForThisStep cfg ticksPerStep rand patternData g (currentTick st) s
       (INSTRUMENTS cfg) (randomCalls st) = (ns, k)"
    by (cases "notesForThisStep cfg ticksPerStep rand patternData g (currentTick st) s
       (INSTRUMENTS cfg) (randomCalls st)")
  let ?st = "st\<lparr>track := (if ns = [] then track st else track st @ [ns]), randomCalls := k\<rparr>"
  have unf: "step_loop cfg ticksPerStep rand patternData g numSteps s st
               = step_loop cfg ticksPerStep rand patternData g numSteps (s + 1) ?st"
    using lt nk by (subst step_loop.simps) simp
  have ps: "map pitch ns = List.map_filter
              (\<lambda>i. if cell_on g i s then truthy_note (INSTRUMENT_MIDI_NOTES cfg) i else None)
              (INSTRUMENTS cfg)"
  proof -
    have "ns = fst (notesForThisStep cfg ticksPerStep rand patternData g (currentTick st) s
       (INSTRUMENTS cfg) (randomCalls st))"
      by (simp add: nk)
    then show ?thesis
      by (simp only: notesForThisStep_pitches)
  qed
  have tr: "map pitch (concat (track ?st)) = map pitch (concat (track st)) @ map pitch ns"
    by simp
  have up: "[s..<numSteps] = s # [s + 1..<numSteps]"
    using lt by (simp add: upt_conv_Cons)
  let ?F = "\<lambda>s. List.map_filter
                    (\<lambda>i. if cell_on g i s then truthy_note (INSTRUMENT_MIDI_NOTES cfg) i else None)
                    (INSTRUMENTS cfg)"
  have "map pitch (concat (track (step_loop cfg ticksPerStep rand patternData g numSteps s st)))
          = map pitch (concat (track ?st)) @ concat (map ?F [s + 1..<numSteps])"
    unfolding unf by (rule Suc.hyps(1) [OF d])
  also have "\<dots> = map pitch (concat (track st)) @ (?F s @ concat (map ?F [s + 1..<numSteps]))"
    unfolding tr ps by simp
  also have "\<dots> = map pitch (concat (track st)) @ concat (map ?F [s..<numSteps])"
    unfolding up by simp
  finally show ?case .
qed

lemma compile_section_pitches:
  "map pitch (concat (track (compile_section cfg ticksPerStep rand patternData g numSteps st)))
     = map pitch (concat (track st))
       @ concat (map (\<lambda>s. List.map_filter
                    (\<lambda>i. if cell_on g i s then truthy_note (INSTRUMENT_MIDI_NOTES cfg) i else None)
                    (INSTRUMENTS cfg)) [0..<numSteps])"
  by (simp add: compile_section_def Let_def step_loop_pitches)


text \<open>
  Claim C1. In SongDrumMachineExporter, take an arrangement \<open>pre @ c # d # rest\<close> in which
  \<open>c\<close> names a pattern of \<open>N\<close> steps and the token after it is a fill digit \<open>d\<close>. The
  pattern is compiled from the state \<open>pre\<close> ends in, with \<open>d\<close> as the token looked at, for
  \<open>N - d\<close> steps when \<open>d \<le> N\<close> and for all \<open>N\<close> steps when \<open>d > N\<close>: the notes it adds are, in
  order, those of the cells that are on, and mapped to a truthy MIDI note, in steps 0 up
  to that number of the pattern's grid, and no others. The cursor moves by that number of
  steps times \<open>ticksPerStep\<close>, the fill moves it by \<open>d\<close> steps more, so that pattern and fill
  together take \<open>N * ticksPerStep\<close> ticks when \<open>d \<le> N\<close>; the rest of the arrangement is
  compiled from the state after the fill, and so is the export of such an arrangement.
  The fill list is not empty and within \<open>INSTRUMENTS\<close>, and the random numbers are in
  \<open>[0, 1)\<close>, so that every fill is generated.
\<close>

theorem look_ahead_shortening:
  assumes "\<not> is_fill_digit c" and "find_entry (sequencersData cfg) c = Some (sid, p)"
    and "is_fill_digit d"
    and "FILL_INSTRUMENTS cfg \<noteq> []" and "set (FILL_INSTRUMENTS cfg) \<subseteq> set (INSTRUMENTS cfg)"
    and "\<forall>j. 0 \<le> rand j \<and> rand j < 1"
  shows "\<exists>st0 st1 st2.
           compile_song cfg ticksPerStep rand pre st = Inr st0
         \<and> section_step cfg ticksPerStep rand c (Some d) st0 = Inr st1
         \<and> st1 = compile_section cfg ticksPerStep rand (Some p) (grid p)
                   (if parseInt d \<le> steps p then steps p - parseInt d else steps p) st0
         \<and> map pitch (concat (track st1))
             = map pitch (concat (track st0))
               @ concat (map (\<lambda>s. List.map_filter
                            (\<lambda>i. if cell_on (grid p) i s
                                 then truthy_note (INSTRUMENT_MIDI_NOTES cfg) i else None)
                            (INSTRUMENTS cfg))
                         [0..<(if parseInt d \<le> steps p then steps p - parseInt d else steps p)])
         \<and> currentTick st1 = currentTick st0
             + (if parseInt d \<le> steps p then steps p - parseInt d else steps p) * ticksPerStep
         \<and> section_step cfg ticksPerStep rand d (case rest of [] \<Rightarrow> None | x # _ \<Rightarrow> Some x) st1
             = Inr st2
         \<and> currentTick st2 = currentTick st1 + parseInt d * ticksPerStep
         \<and> (parseInt d \<le> steps p \<longrightarrow> currentTick st2 = currentTick st0 + steps p * ticksPerStep)
         \<and> compile_song cfg ticksPerStep rand (pre @ c # d # rest) st
             = compile_song cfg ticksPerStep rand rest st2
         \<and> (songStructure cfg = pre @ c # d # rest
              \<and> st = \<lparr>track = [], randomCalls = 0, currentTick = 0\<rparr> \<longrightarrow>
              SongDrumMachine_exportSong cfg ticksPerStep rand
                = (case compile_song cfg ticksPerStep rand rest st2 of
                     Inl e \<Rightarrow> Throws e | Inr fin \<Rightarrow> Download fin))"
proof -
  let ?n = "if parseInt d \<le> steps p then steps p - parseInt d else steps p"
  obtain st0 where s0: "compile_song cfg ticksPerStep rand pre st = Inr st0"
    using compile_song_total [OF assms(4,5,6)] by blast
  let ?st1 = "compile_section cfg ticksPerStep rand (Some p) (grid p) ?n st0"
  have s1: "section_step cfg ticksPerStep rand c (Some d) st0 = Inr ?st1"
    using assms(1,2,3) by (simp add: section_step_def look_ahead_fill)
  have p1: "map pitch (concat (track ?st1))
             = map pitch (concat (track st0))
               @ concat (map (\<lambda>s. List.map_filter
                            (\<lambda>i. if cell_on (grid p) i s
                                 then truthy_note (INSTRUMENT_MIDI_NOTES cfg) i else None)
                            (INSTRUMENTS cfg)) [0..<?n])"
    by (rule compile_section_pitches)
  have t1: "currentTick ?st1 = currentTick st0 + ?n * ticksPerStep"
    by (rule compile_section_currentTick)
  let ?nxt = "case rest of [] \<Rightarrow> None | x # _ \<Rightarrow> Some x"
  obtain g k where gk:
    "fillGrid (INSTRUMENTS cfg) (FILL_INSTRUMENTS cfg) rand (parseInt d) (randomCalls ?st1) = Inr (g, k)"
    using fillGrid_ok [OF assms(4,5,6)] by blast
  let ?st2 = "compile_section cfg ticksPerStep rand None g (parseInt d) (?st1\<lparr>randomCalls := k\<rparr>)"
  have s2: "section_step cfg ticksPerStep rand d ?nxt ?st1 = Inr ?st2"
    using assms(3) gk by (simp add: section_step_def Let_def)
  have t2: "currentTick ?st2 = currentTick ?st1 + parseInt d * ticksPerStep"
    by (simp add: compile_section_currentTick)
  have t3: "parseInt d \<le> steps p \<longrightarrow> currentTick ?st2 = currentTick st0 + steps p * ticksPerStep"
    unfolding t2 t1 by (simp add: add_mult_distrib [symmetric])
  have "compile_song cfg ticksPerStep rand (pre @ c # d # rest) st
          = compile_song cfg ticksPerStep rand (c # d # rest) st0"
    using compile_song_before_pattern [OF assms(1), of cfg ticksPerStep rand pre "d # rest" st] s0
    by simp
  also have "\<dots> = compile_song cfg ticksPerStep rand (d # rest) ?st1"
    using s1 by simp
  also have "\<dots> = compile_song cfg ticksPerStep rand rest ?st2"
    using s2 by simp
  finally have whole: "compile_song cfg ticksPerStep rand (pre @ c # d # rest) st
          = compile_song cfg ticksPerStep rand rest ?st2" .
  have sd: "sequencersData cfg \<noteq> []"
    using assms(2) by (auto simp: find_entry_def)
  have ex: "songStructure cfg = pre @ c # d # rest
              \<and> st = \<lparr>track = [], randomCalls = 0, currentTick = 0\<rparr> \<longrightarrow>
              SongDrumMachine_exportSong cfg ticksPerStep rand
                = (case compile_song cfg ticksPerStep rand rest ?st2 of
                     Inl e \<Rightarrow> Throws e | Inr fin \<Rightarrow> Download fin)"
    using whole sd by (auto simp: SongDrumMachine_exportSong_def)
  from s0 s1 p1 t1 s2 t2 t3 whole ex show ?thesis by blast
qed

theorem look_ahead_shortening_witness:
  "elapsed (SongDrumMachine_exportSong demo_config 128 half_source) = 4 * 128
   \<and> map pitch (emitted (SongDrumMachine_exportSong demo_config 128 half_source)) = [36, 38, 38, 38]"
proof -
  have e: "map pitch (emitted (SongDrumMachine_exportSong demo_config 128 half_source))
             = [36, 38, 38, 38]"
    by code_simp
  have h: "\<not> is_fill_digit CHR ''A''"
    "find_entry (sequencersData demo_config) CHR ''A'' = Some (''seq-1'', demo_A)"
    "is_fill_digit CHR ''2''"
    "FILL_INSTRUMENTS demo_config \<noteq> []"
    "set (FILL_INSTRUMENTS demo_config) \<subseteq> set (INSTRUMENTS demo_config)"
    "\<forall>j. 0 \<le> half_source j \<and> half_source j < 1"
    by (simp_all add: is_fill_digit_def find_entry_def demo_config_def demo_A_def half_source_def)
  have v: "parseInt CHR ''2'' = 2" "steps demo_A = 4"
    "songStructure demo_config = [] @ CHR ''A'' # CHR ''2'' # []"
    by (simp_all add: parseInt_def demo_A_def demo_config_def)
  obtain st0 st2 where
    a: "compile_song demo_config 128 half_source [] \<lparr>track = [], randomCalls = 0, currentTick = 0\<rparr> = Inr st0"
    and b: "currentTick st2 = currentTick st0 + steps demo_A * 128"
    and c: "SongDrumMachine_exportSong demo_config 128 half_source
                = (case compile_song demo_config 128 half_source [] st2 of
                     Inl e \<Rightarrow> Throws e | Inr fin \<Rightarrow> Download fin)"
    using look_ahead_shortening [OF h, of 128 "[]" "\<lparr>track = [], randomCalls = 0, currentTick = 0\<rparr>" "[]"]
      v by auto
  from a have "currentTick st0 = 0" by auto
  with b c v(2) have "elapsed (SongDrumMachine_exportSong demo_config 128 half_source) = 4 * 128"
    by (simp add: elapsed_def)
  with e show ?thesis by simp
qed

section \<open>The notes of one step\<close>

lemma note_of_SomeD:
  assumes "note_of cfg ticksPerStep rand patternData g tick s i k = (Some n, k')"
  shows "cell_on g i s"
    and "truthy_note (INSTRUMENT_MIDI_NOTES cfg) i = Some (pitch n)"
    and "startTick n = int tick + int (s * ticksPerStep)
           + (if isHumanizeOn cfg \<and> timingHumanizeAmount cfg > 0
              then timingVariation cfg ticksPerStep
                     (rand (if isHumanizeOn cfg \<and> velocityHumanizeAmount cfg > 0 then k + 1 else k))
              else 0)
           + (if swingAmount cfg > 0 \<and> odd s then swingDelay cfg ticksPerStep else 0)"
    and "velocity n = clamp_velocity
           (if isHumanizeOn cfg \<and> velocityHumanizeAmount cfg > 0
            then map_option (\<lambda>v. v + velocityVariation cfg (rand k)) (baseVelocity patternData i s)
            else baseVelocity patternData i s)"
  using assms
  by (auto simp: note_of_def Let_def odd_iff_mod_2_eq_one split: if_splits option.splits)

lemma notesForThisStep_mem:
  assumes "n \<in> set (fst (notesForThisStep cfg ticksPerStep rand patternData g tick s is k))"
  shows "\<exists>i k0 k1. i \<in> set is \<and> note_of cfg ticksPerStep rand patternData g tick s i k0 = (Some n, k1)"
  using assms
proof (induction "is" arbitrary: k)
  case Nil
  then show ?case by simp
next
  case (Cons i "is")
  obtain on k1 where a: "note_of cfg ticksPerStep rand patternData g tick s i k = (on, k1)"
    by (cases "note_of cfg ticksPerStep rand patternData g tick s i k")
  obtain ns k2 where b: "notesForThisStep cfg ticksPerStep rand patternData g tick s is k1 = (ns, k2)"
    by (cases "notesForThisStep cfg ticksPerStep rand patternData g tick s is k1")
  show ?case
  proof (cases on)
    case None
    with Cons.prems a b have "n \<in> set (fst (notesForThisStep cfg ticksPerStep rand patternData g tick s is k1))"
      by simp
    from Cons.IH [OF this] show ?thesis by auto
  next
    case (Some m)
    with Cons.prems a b have "n = m \<or> n \<in> set (fst (notesForThisStep cfg ticksPerStep rand patternData g tick s is k1))"
      by auto
    then show ?thesis
    proof
      assume "n = m"
      with a Some show ?thesis by auto
    next
      assume "n \<in> set (fst (notesForThisStep cfg ticksPerStep rand patternData g tick s is k1))"
      from Cons.IH [OF this] show ?thesis by auto
    qed
  qed
qed

text \<open>
  Claim C3. Every note of a step of SongDrumMachineExporter starts at the section's base
  tick plus \<open>step * ticksPerStep\<close>, plus the timing variation of the humanization if that is
  on, plus \<open>round (swingAmount * 2 * ticksPerStep)\<close> exactly when \<open>swingAmount > 0\<close> and the
  step index is odd. With the humanize toggle off the start tick is the base position plus
  the swing delay on odd steps, and the base position alone on even steps.
\<close>

theorem swing_offset:
  assumes "n \<in> set (fst (notesForThisStep cfg ticksPerStep rand patternData g tick s is k))"
  shows "(\<exists>j. startTick n = int tick + int (s * ticksPerStep)
                + (if isHumanizeOn cfg \<and> timingHumanizeAmount cfg > 0
                   then timingVariation cfg ticksPerStep (rand j) else 0)
                + (if swingAmount cfg > 0 \<and> odd s
                   then round (swingAmount cfg * 2 * of_nat ticksPerStep) else 0))
       \<and> (\<not> isHumanizeOn cfg \<longrightarrow>
            startTick n = int tick + int (s * ticksPerStep)
                + (if swingAmount cfg > 0 \<and> odd s
                   then round (swingAmount cfg * 2 * of_nat ticksPerStep) else 0))"
proof -
  obtain i k0 k1 where "note_of cfg ticksPerStep rand patternData g tick s i k0 = (Some n, k1)"
    using notesForThisStep_mem [OF assms] by blast
  from note_of_SomeD(3) [OF this] show ?thesis
    unfolding swingDelay_def by (intro conjI exI impI) (erule ssubst, simp)+
qed

lemma swingDelay_demo: "swingDelay demo_config 128 = 26"
  by code_simp

theorem swing_offset_witness:
  "\<lparr>pitch = 38, duration = ''16'', startTick = 154, velocity = Some 1, channel = 10\<rparr>
     \<in> set (fst (notesForThisStep demo_config 128 half_source (Some demo_A) (grid demo_A) 0 1
                    (INSTRUMENTS demo_config) 0))
   \<and> (154::int) = int 0 + int (1 * 128) + round (swingAmount demo_config * 2 * of_nat 128)"
proof -
  have m: "\<lparr>pitch = 38, duration = ''16'', startTick = 154, velocity = Some 1, channel = 10\<rparr>
     \<in> set (fst (notesForThisStep demo_config 128 half_source (Some demo_A) (grid demo_A) 0 1
                    (INSTRUMENTS demo_config) 0))"
    by code_simp
  have c: "\<not> isHumanizeOn demo_config" "swingAmount demo_config > 0"
    by (simp_all add: demo_config_def)
  show ?thesis
    using swing_offset [OF m] m c by simp
qed

section \<open>The velocity of a note\<close>

lemma clamp_rescale:
  "clamp_velocity (Some (rescale v)) = Some (max 1 (min 100 (round ((of_int v / 127) * 100 :: rat))))"
  by (simp only: clamp_velocity_def rescale_def option.map)

lemma notesForThisStep_velocity:
  assumes "\<not> (isHumanizeOn cfg \<and> velocityHumanizeAmount cfg > 0)"
    and "n \<in> set (fst (notesForThisStep cfg ticksPerStep rand patternData g tick s is k))"
  shows "\<exists>i \<in> set is. cell_on g i s \<and> truthy_note (INSTRUMENT_MIDI_NOTES cfg) i = Some (pitch n)
           \<and> velocity n =
               (case patternData of None \<Rightarrow> Some 100
                | Some p \<Rightarrow>
                    (case velocities p i of None \<Rightarrow> Some 100
                     | Some row \<Rightarrow> if s < length row then clamp_velocity (Some (rescale (row ! s)))
                                   else None))"
proof -
  obtain i k0 k1 where i: "i \<in> set is"
    and n: "note_of cfg ticksPerStep rand patternData g tick s i k0 = (Some n, k1)"
    using notesForThisStep_mem [OF assms(2)] by blast
  have v: "velocity n = clamp_velocity (baseVelocity patternData i s)"
    using note_of_SomeD(4) [OF n] assms(1) by simp
  have "clamp_velocity (baseVelocity patternData i s) =
               (case patternData of None \<Rightarrow> Some 100
                | Some p \<Rightarrow>
                    (case velocities p i of None \<Rightarrow> Some 100
                     | Some row \<Rightarrow> if s < length row then clamp_velocity (Some (rescale (row ! s)))
                                   else None))"
    by (simp add: baseVelocity_def clamp_velocity_def split: option.splits)
  with v i note_of_SomeD(1,2) [OF n] show ?thesis by auto
qed

text \<open>
  Claim C2. In SongDrumMachineExporter, with no velocity variation (the humanize toggle off
  or the velocity amount 0), every note of a step belongs to an instrument of the list
  whose cell is on, and its velocity is the clamp to 1..100 of
  \<open>round (stored / 127 * 100)\<close>, where \<open>stored\<close> is the entry of the bound velocity table for
  that instrument and step; it is 100 when the section has no velocity source or the
  source has no row for the instrument, and \<open>NaN\<close> when the step is beyond the row. As a
  function of the stored velocity the output is \<open>max 1 (min 100 (round (stored / 127 * 100)))\<close>:
  stored 127 gives 100, stored 0 gives 1, a larger stored velocity never gives a smaller
  output, and a stored velocity in 0..127 gives an output in 1..100 that the clamp changes
  only when the rounded value is 0.
\<close>

theorem velocity_rescaling:
  "clamp_velocity (Some (rescale v))
     = Some (max 1 (min 100 (round ((of_int v / 127) * 100 :: rat))))
   \<and> clamp_velocity (Some (rescale 127)) = Some 100
   \<and> clamp_velocity (Some (rescale 0)) = Some 1
   \<and> (v \<le> w \<longrightarrow>
        (\<exists>a b. clamp_velocity (Some (rescale v)) = Some a
             \<and> clamp_velocity (Some (rescale w)) = Some b \<and> a \<le> b))
   \<and> (0 \<le> v \<and> v \<le> 127 \<longrightarrow>
        (\<exists>a. clamp_velocity (Some (rescale v)) = Some a \<and> 1 \<le> a \<and> a \<le> 100
            \<and> (0 < rescale v \<longrightarrow> a = rescale v)))
   \<and> (\<not> (isHumanizeOn cfg \<and> velocityHumanizeAmount cfg > 0)
        \<and> n \<in> set (fst (notesForThisStep cfg ticksPerStep rand patternData g tick s is k)) \<longrightarrow>
        (\<exists>i \<in> set is. cell_on g i s \<and> truthy_note (INSTRUMENT_MIDI_NOTES cfg) i = Some (pitch n)
           \<and> velocity n =
               (case patternData of None \<Rightarrow> Some 100
                | Some p \<Rightarrow>
                    (case velocities p i of None \<Rightarrow> Some 100
                     | Some row \<Rightarrow> if s < length row then clamp_velocity (Some (rescale (row ! s)))
                                   else None))))"
proof -
  have a: "rescale 127 = 100" and a0: "rescale 0 = 0"
    by (simp_all add: rescale_div)
  have c1: "clamp_velocity (Some (rescale 127)) = Some 100"
    and c0: "clamp_velocity (Some (rescale 0)) = Some 1"
    by (simp_all add: a a0 clamp_velocity_def)
  have m: "v \<le> w \<longrightarrow>
        (\<exists>a b. clamp_velocity (Some (rescale v)) = Some a
             \<and> clamp_velocity (Some (rescale w)) = Some b \<and> a \<le> b)"
  proof
    assume "v \<le> w"
    then have "rescale v \<le> rescale w" by (rule rescale_mono)
    then have "max 1 (min 100 (rescale v)) \<le> max 1 (min 100 (rescale w))" by simp
    then show "\<exists>a b. clamp_velocity (Some (rescale v)) = Some a
             \<and> clamp_velocity (Some (rescale w)) = Some b \<and> a \<le> b"
      by (simp add: clamp_velocity_def)
  qed
  have r: "0 \<le> v \<and> v \<le> 127 \<longrightarrow>
        (\<exists>a. clamp_velocity (Some (rescale v)) = Some a \<and> 1 \<le> a \<and> a \<le> 100
            \<and> (0 < rescale v \<longrightarrow> a = rescale v))"
  proof
    assume "0 \<le> v \<and> v \<le> 127"
    then have "0 \<le> rescale v" "rescale v \<le> 100"
      using rescale_mono [of 0 v] rescale_mono [of v 127] a a0 by auto
    then show "\<exists>a. clamp_velocity (Some (rescale v)) = Some a \<and> 1 \<le> a \<and> a \<le> 100
            \<and> (0 < rescale v \<longrightarrow> a = rescale v)"
      by (simp add: clamp_velocity_def)
  qed
  have b: "\<not> (isHumanizeOn cfg \<and> velocityHumanizeAmount cfg > 0)
        \<and> n \<in> set (fst (notesForThisStep cfg ticksPerStep rand patternData g tick s is k)) \<longrightarrow>
        (\<exists>i \<in> set is. cell_on g i s \<and> truthy_note (INSTRUMENT_MIDI_NOTES cfg) i = Some (pitch n)
           \<and> velocity n =
               (case patternData of None \<Rightarrow> Some 100
                | Some p \<Rightarrow>
                    (case velocities p i of None \<Rightarrow> Some 100
                     | Some row \<Rightarrow> if s < length row then clamp_velocity (Some (rescale (row ! s)))
                                   else None)))"
    using notesForThisStep_velocity by blast
  from clamp_rescale [of v] c1 c0 m r b show ?thesis by blast
qed

theorem velocity_rescaling_witness:
  "\<lparr>pitch = 38, duration = ''16'', startTick = 666, velocity = Some 71, channel = 10\<rparr>
     \<in> set (fst (notesForThisStep demo_config 128 half_source (Some demo_A) (grid demo_A) 256 3
                    (INSTRUMENTS demo_config) 7))
   \<and> Some 71 = clamp_velocity (Some (rescale 90))
   \<and> (\<exists>a b. clamp_velocity (Some (rescale 64)) = Some a
           \<and> clamp_velocity (Some (rescale 90)) = Some b \<and> a \<le> b)"
proof -
  let ?n = "\<lparr>pitch = 38, duration = ''16'', startTick = 666, velocity = Some 71, channel = 10\<rparr>"
  have m: "?n \<in> set (fst (notesForThisStep demo_config 128 half_source (Some demo_A) (grid demo_A)
                              256 3 (INSTRUMENTS demo_config) 7))"
    by code_simp
  have h: "\<not> (isHumanizeOn demo_config \<and> velocityHumanizeAmount demo_config > 0)"
    by (simp add: demo_config_def)
  note t = velocity_rescaling [of 64 90 demo_config ?n 128 half_source "Some demo_A" "grid demo_A"
      256 3 "INSTRUMENTS demo_config" 7]
  from t h m obtain i where i: "i \<in> set (INSTRUMENTS demo_config)"
    "truthy_note (INSTRUMENT_MIDI_NOTES demo_config) i = Some (pitch ?n)"
    "velocity ?n = (case velocities demo_A i of None \<Rightarrow> Some 100
                     | Some row \<Rightarrow> if 3 < length row then clamp_velocity (Some (rescale (row ! 3)))
                                   else None)"
    by auto
  from i(1,2) have "i = ''snare''"
    by (auto simp: demo_config_def truthy_note_def)
  with i(3) have "Some 71 = clamp_velocity (Some (rescale 90))"
    by (simp add: demo_A_def)
  moreover have "(64::int) \<le> 90" by simp
  with t have "\<exists>a b. clamp_velocity (Some (rescale 64)) = Some a
           \<and> clamp_velocity (Some (rescale 90)) = Some b \<and> a \<le> b"
    by blast
  ultimately show ?thesis using m by blast
qed

section \<open>Humanization switched off\<close>

lemma note_of_plain:
  assumes "\<not> isHumanizeOn cfg"
  shows "note_of cfg ticksPerStep rand patternData g tick s i k =
           (if cell_on g i s \<and> truthy_note (INSTRUMENT_MIDI_NOTES cfg) i \<noteq> None
            then Some \<lparr>pitch = the (truthy_note (INSTRUMENT_MIDI_NOTES cfg) i), duration = ''16'',
                       startTick = int tick + int (s * ticksPerStep)
                         + (if swingAmount cfg > 0 \<and> odd s then swingDelay cfg ticksPerStep else 0),
                       velocity = clamp_velocity (baseVelocity patternData i s), channel = 10\<rparr>
            else None, k)"
  using assms
  by (auto simp: note_of_def Let_def odd_iff_mod_2_eq_one split: option.splits)

text \<open>
  Claim C4. With the humanize toggle off, whatever the two humanize amounts are, the batch
  of a step holds one note for each instrument of the list whose cell is on and whose MIDI
  note is truthy, in the order of the list; its velocity is the clamped base velocity, its
  start tick is the base tick plus \<open>step * ticksPerStep\<close> plus the swing delay when that
  applies, and \<open>Math.random\<close> is not called.
\<close>

theorem humanize_off:
  assumes "\<not> isHumanizeOn cfg"
  shows "notesForThisStep cfg ticksPerStep rand patternData g tick s is k =
           (map (\<lambda>i. \<lparr>pitch = the (truthy_note (INSTRUMENT_MIDI_NOTES cfg) i), duration = ''16'',
                       startTick = int tick + int (s * ticksPerStep)
                         + (if swingAmount cfg > 0 \<and> odd s then swingDelay cfg ticksPerStep else 0),
                       velocity = clamp_velocity (baseVelocity patternData i s), channel = 10\<rparr>)
              (filter (\<lambda>i. cell_on g i s \<and> truthy_note (INSTRUMENT_MIDI_NOTES cfg) i \<noteq> None) is),
            k)"
proof (induction "is")
  case Nil
  show ?case by simp
next
  case (Cons i "is")
  show ?case
  proof (cases "cell_on g i s \<and> truthy_note (INSTRUMENT_MIDI_NOTES cfg) i \<noteq> None")
    case True
    with Cons.IH show ?thesis
      by (simp add: note_of_plain [OF assms])
  next
    case False
    with Cons.IH show ?thesis
      by (simp add: note_of_plain [OF assms])
  qed
qed


theorem humanize_off_witness:
  "notesForThisStep demo_config 128 half_source (Some demo_A) (grid demo_A) 256 3
     (INSTRUMENTS demo_config) 7 =
   ([\<lparr>pitch = 36, duration = ''16'', startTick = 666, velocity = Some 50, channel = 10\<rparr>,
     \<lparr>pitch = 38, duration = ''16'', startTick = 666, velocity = Some 71, channel = 10\<rparr>], 7)"
proof -
  have c: "\<not> isHumanizeOn demo_config"
    by (simp add: demo_config_def)
  have g: "cell_on (grid demo_A) ''kick'' 3" "cell_on (grid demo_A) ''snare'' 3"
    by (simp_all add: demo_A_def cell_on_def)
  have v: "clamp_velocity (baseVelocity (Some demo_A) ''kick'' 3) = Some 50"
    "clamp_velocity (baseVelocity (Some demo_A) ''snare'' 3) = Some 71"
    by (simp_all add: demo_A_def clamp_velocity_def baseVelocity_def rescale_div)
  have i: "INSTRUMENTS demo_config = [''kick'', ''snare'']"
    "truthy_note (INSTRUMENT_MIDI_NOTES demo_config) ''kick'' = Some 36"
    "truthy_note (INSTRUMENT_MIDI_NOTES demo_config) ''snare'' = Some 38"
    "swingAmount demo_config > 0"
    by (simp_all add: demo_config_def truthy_note_def)
  show ?thesis
    unfolding humanize_off [OF c] i by (simp add: g v i swingDelay_demo)
qed

section \<open>Every note of an export\<close>

lemma notesForThisStep_all:
  assumes "\<And>i k n k'. note_of cfg ticksPerStep rand patternData g tick s i k = (Some n, k') \<Longrightarrow> P n"
  shows "\<forall>n \<in> set (fst (notesForThisStep cfg ticksPerStep rand patternData g tick s is k)). P n"
  using notesForThisStep_mem assms by blast

lemma step_loop_track:
  assumes "\<And>s i k n k'. note_of cfg ticksPerStep rand patternData g tick s i k = (Some n, k') \<Longrightarrow> P n"
  shows "currentTick st = tick \<Longrightarrow>
         \<exists>bs. track (step_loop cfg ticksPerStep rand patternData g numSteps s st) = track st @ bs
              \<and> (\<forall>n \<in> set (concat bs). P n)"
proof (induction "numSteps - s" arbitrary: s st)
  case 0
  then show ?case by (simp add: step_loop.simps)
next
  case (Suc d)
  then have lt: "s < numSteps" by simp
  obtain ns k where nk:
    "notesForThisStep cfg ticksPerStep rand patternData g (currentTick st) s
       (INSTRUMENTS cfg) (randomCalls st) = (ns, k)"
    by (cases "notesForThisStep cfg ticksPerStep rand patternData g (currentTick st) s
       (INSTRUMENTS cfg) (randomCalls st)")
  have pn: "\<forall>n \<in> set ns. P n"
    using notesForThisStep_all [of cfg ticksPerStep rand patternData g tick s P "INSTRUMENTS cfg" "randomCalls st"]
      assms nk Suc.prems by simp
  let ?st = "st\<lparr>track := (if ns = [] then track st else track st @ [ns]), randomCalls := k\<rparr>"
  have "d = numSteps - (s + 1)" using Suc.hyps(2) by simp
  from Suc.hyps(1) [OF this, of ?st] Suc.prems
  obtain bs where bs: "track (step_loop cfg ticksPerStep rand patternData g numSteps (s + 1) ?st)
                        = track ?st @ bs" "\<forall>n \<in> set (concat bs). P n"
    by auto
  have unf: "step_loop cfg ticksPerStep rand patternData g numSteps s st
               = step_loop cfg ticksPerStep rand patternData g numSteps (s + 1) ?st"
    using lt nk by (subst step_loop.simps) simp
  show ?case
  proof (cases "ns = []")
    case True
    with bs unf show ?thesis by auto
  next
    case False
    with bs unf have "track (step_loop cfg ticksPerStep rand patternData g numSteps s st)
                        = track st @ (ns # bs)" by simp
    moreover have "\<forall>n \<in> set (concat (ns # bs)). P n" using pn bs(2) by auto
    ultimately show ?thesis by blast
  qed
qed

lemma compile_section_track:
  assumes "\<And>s i k n k'. note_of cfg ticksPerStep rand patternData g (currentTick st) s i k = (Some n, k') \<Longrightarrow> P n"
  shows "\<exists>bs. track (compile_section cfg ticksPerStep rand patternData g numSteps st) = track st @ bs
              \<and> (\<forall>n \<in> set (concat bs). P n)"
  using step_loop_track [of cfg ticksPerStep rand patternData g "currentTick st" P st numSteps 0] assms
  by (simp add: compile_section_def Let_def)

lemma section_step_all:
  assumes "\<And>patternData g tick s i k n k'.
             note_of cfg ticksPerStep rand patternData g tick s i k = (Some n, k') \<Longrightarrow> P n"
    and "section_step cfg ticksPerStep rand c nxt st = Inr st'"
    and "\<forall>n \<in> set (concat (track st)). P n"
  shows "\<forall>n \<in> set (concat (track st')). P n"
proof (cases "is_fill_digit c")
  case True
  with assms(2) obtain g k where
    st': "st' = compile_section cfg ticksPerStep rand None g (parseInt c) (st\<lparr>randomCalls := k\<rparr>)"
    by (auto simp: section_step_def Let_def split: sum.splits)
  show ?thesis
    using compile_section_track [of cfg ticksPerStep rand None g "st\<lparr>randomCalls := k\<rparr>" P "parseInt c"]
      assms(1,3) unfolding st' by auto
next
  case False
  show ?thesis
  proof (cases "find_entry (sequencersData cfg) c")
    case None
    with False assms(2,3) show ?thesis by (simp add: section_step_def)
  next
    case (Some e)
    obtain sid p where e: "e = (sid, p)" by (cases e)
    with Some False assms(2) have
      st': "st' = compile_section cfg ticksPerStep rand (Some p) (grid p)
                    (look_ahead (steps p) nxt) st"
      by (simp add: section_step_def)
    show ?thesis
      using compile_section_track [of cfg ticksPerStep rand "Some p" "grid p" st P "look_ahead (steps p) nxt"]
        assms(1,3) unfolding st' by auto
  qed
qed

lemma compile_song_all:
  assumes "\<And>patternData g tick s i k n k'.
             note_of cfg ticksPerStep rand patternData g tick s i k = (Some n, k') \<Longrightarrow> P n"
  shows "compile_song cfg ticksPerStep rand cs st = Inr st' \<Longrightarrow>
         \<forall>n \<in> set (concat (track st)). P n \<Longrightarrow> \<forall>n \<in> set (concat (track st')). P n"
proof (induction cs arbitrary: st)
  case Nil
  then show ?case by simp
next
  case (Cons c cs)
  from Cons.prems(1) obtain st1 where
    s1: "section_step cfg ticksPerStep rand c (case cs of [] \<Rightarrow> None | n # _ \<Rightarrow> Some n) st = Inr st1"
    and s2: "compile_song cfg ticksPerStep rand cs st1 = Inr st'"
    by (auto split: sum.splits)
  have "\<forall>n \<in> set (concat (track st1)). P n"
    using section_step_all [of cfg ticksPerStep rand P, OF assms s1 Cons.prems(2)] .
  from Cons.IH [OF s2 this] show ?case .
qed

lemma exportSong_all:
  assumes "\<And>patternData g tick s i k n k'.
             note_of cfg ticksPerStep rand patternData g tick s i k = (Some n, k') \<Longrightarrow> P n"
  shows "\<forall>n \<in> set (emitted (SongDrumMachine_exportSong cfg ticksPerStep rand)). P n"
proof (cases "SongDrumMachine_exportSong cfg ticksPerStep rand")
  case (Download st')
  then have "compile_song cfg ticksPerStep rand (songStructure cfg)
               \<lparr>track = [], randomCalls = 0, currentTick = 0\<rparr> = Inr st'"
    by (auto simp: SongDrumMachine_exportSong_def split: if_splits sum.splits)
  from compile_song_all [of cfg ticksPerStep rand P, OF assms this]
  show ?thesis by (simp add: emitted_def Download)
qed (simp_all add: emitted_def)


section \<open>Start ticks\<close>

lemma timingVariation_lower:
  assumes "0 \<le> timingHumanizeAmount cfg" "timingHumanizeAmount cfg \<le> 1" "0 \<le> r"
  shows "- int ((ticksPerStep + 1) div 4) \<le> timingVariation cfg ticksPerStep r"
proof -
  let ?t = "of_nat ticksPerStep * (1 / 4) :: rat"
  let ?a = "timingHumanizeAmount cfg"
  have t0: "0 \<le> ?t" by simp
  have "- 1 \<le> (r - 1 / 2) * 2" using assms(3) by simp
  then have "- 1 * ?t \<le> ((r - 1 / 2) * 2) * ?t"
    using t0 by (intro mult_right_mono)
  then have y: "- ?t \<le> ((r - 1 / 2) * 2) * ?t" by simp
  have "- ?t \<le> (((r - 1 / 2) * 2) * ?t) * ?a"
  proof (cases "0 \<le> ((r - 1 / 2) * 2) * ?t")
    case True
    then have "0 \<le> (((r - 1 / 2) * 2) * ?t) * ?a" using assms(1) by simp
    with t0 show ?thesis by linarith
  next
    case False
    then have "(((r - 1 / 2) * 2) * ?t) * 1 \<le> (((r - 1 / 2) * 2) * ?t) * ?a"
      using assms(2) by (intro mult_left_mono_neg) simp_all
    with y show ?thesis by simp
  qed
  then have "round (- ?t) \<le> timingVariation cfg ticksPerStep r"
    unfolding timingVariation_def by (intro round_mono)
  moreover have "round (- ?t) = (2 - int ticksPerStep) div 4"
  proof -
    have "- ?t + 1 / 2 = of_int (2 - int ticksPerStep) / of_int 4"
      by (simp add: field_simps)
    then show ?thesis
      unfolding round_def by (simp only: floor_divide_of_int_eq)
  qed
  moreover have "(2 - int ticksPerStep) div 4 = - int ((ticksPerStep + 1) div 4)"
    by (simp add: zdiv_int)
  ultimately show ?thesis by simp
qed

lemma swingDelay_nonneg: "0 \<le> swingAmount cfg \<Longrightarrow> 0 \<le> swingDelay cfg ticksPerStep"
proof -
  assume "0 \<le> swingAmount cfg"
  then have "round (0::rat) \<le> round (swingAmount cfg * 2 * of_nat ticksPerStep)"
    by (intro round_mono) simp
  then show ?thesis by (simp add: swingDelay_def)
qed

lemma note_of_startTick_lower:
  assumes "note_of cfg ticksPerStep rand patternData g tick s i k = (Some n, k')"
    and "0 \<le> swingAmount cfg" "0 \<le> timingHumanizeAmount cfg" "timingHumanizeAmount cfg \<le> 1"
    and "\<forall>j. 0 \<le> rand j \<and> rand j < 1"
  shows "int tick + int (s * ticksPerStep) - int ((ticksPerStep + 1) div 4) \<le> startTick n"
    and "\<not> isHumanizeOn cfg \<or> timingHumanizeAmount cfg = 0 \<Longrightarrow>
           int tick + int (s * ticksPerStep) \<le> startTick n"
proof -
  note st = note_of_SomeD(3) [OF assms(1)]
  have sw: "0 \<le> swingDelay cfg ticksPerStep" by (rule swingDelay_nonneg [OF assms(2)])
  have tv: "\<And>j. - int ((ticksPerStep + 1) div 4) \<le> timingVariation cfg ticksPerStep (rand j)"
    using timingVariation_lower [OF assms(3,4)] assms(5) by blast
  show "int tick + int (s * ticksPerStep) - int ((ticksPerStep + 1) div 4) \<le> startTick n"
    unfolding st using sw tv [of "k + 1"] tv [of k] by (simp split: if_splits)
  show "int tick + int (s * ticksPerStep) \<le> startTick n"
    if "\<not> isHumanizeOn cfg \<or> timingHumanizeAmount cfg = 0"
    unfolding st using sw that by auto
qed


text \<open>
  Claim C8, as stated, fails: with humanization on, timing amount 1 and a random number 0,
  the kick on the first step of the song starts at tick \<open>- 32\<close>. The input is within the
  contract.
\<close>

theorem first_step_before_zero:
  "0 \<le> swingAmount jitter_config \<and> swingAmount jitter_config \<le> 1 / 4
   \<and> 0 \<le> timingHumanizeAmount jitter_config \<and> timingHumanizeAmount jitter_config \<le> 1
   \<and> 0 \<le> velocityHumanizeAmount jitter_config \<and> velocityHumanizeAmount jitter_config \<le> 1
   \<and> map startTick (emitted (SongDrumMachine_exportSong jitter_config 128 zero_source))
       = [- 32, 96, 352, 352]"
  by code_simp

text \<open>
  Claim C8, amended. For an input within the contract, every note of a step starts at an
  integer tick that is at least the section's base tick plus \<open>step * ticksPerStep\<close> minus
  \<open>(ticksPerStep + 1) div 4\<close>, and at least the base tick plus \<open>step * ticksPerStep\<close> when the
  humanize toggle is off or the timing amount is 0. So every note of an export starts at
  \<open>- ((ticksPerStep + 1) div 4)\<close> or later, and at 0 or later when the humanize toggle is off
  or the timing amount is 0. No clamp is applied to a start tick.
\<close>

theorem start_tick_lower_bound:
  assumes "0 \<le> swingAmount cfg" and "0 \<le> timingHumanizeAmount cfg"
    and "timingHumanizeAmount cfg \<le> 1" and "\<forall>j. 0 \<le> rand j \<and> rand j < 1"
  shows "(n \<in> set (fst (notesForThisStep cfg ticksPerStep rand patternData g tick s is k)) \<longrightarrow>
            int tick + int (s * ticksPerStep) - int ((ticksPerStep + 1) div 4) \<le> startTick n
          \<and> (\<not> isHumanizeOn cfg \<or> timingHumanizeAmount cfg = 0 \<longrightarrow>
                int tick + int (s * ticksPerStep) \<le> startTick n))
       \<and> (n \<in> set (emitted (SongDrumMachine_exportSong cfg ticksPerStep rand)) \<longrightarrow>
            - int ((ticksPerStep + 1) div 4) \<le> startTick n
          \<and> (\<not> isHumanizeOn cfg \<or> timingHumanizeAmount cfg = 0 \<longrightarrow> 0 \<le> startTick n))"
proof (intro conjI impI)
  assume "n \<in> set (fst (notesForThisStep cfg ticksPerStep rand patternData g tick s is k))"
  then obtain i k0 k1 where
    n: "note_of cfg ticksPerStep rand patternData g tick s i k0 = (Some n, k1)"
    using notesForThisStep_mem by blast
  show "int tick + int (s * ticksPerStep) - int ((ticksPerStep + 1) div 4) \<le> startTick n"
    by (rule note_of_startTick_lower(1) [OF n assms])
  show "int tick + int (s * ticksPerStep) \<le> startTick n"
    if "\<not> isHumanizeOn cfg \<or> timingHumanizeAmount cfg = 0"
    by (rule note_of_startTick_lower(2) [OF n assms that])
next
  assume m: "n \<in> set (emitted (SongDrumMachine_exportSong cfg ticksPerStep rand))"
  have b: "- int ((ticksPerStep + 1) div 4) \<le> startTick n"
    if "note_of cfg ticksPerStep rand patternData g tick s i k = (Some n, k')"
    for patternData g tick s i k n k'
  proof -
    have "(0::int) \<le> int tick + int (s * ticksPerStep)" by simp
    with note_of_startTick_lower(1) [OF that assms] show ?thesis by linarith
  qed
  have "\<forall>n \<in> set (emitted (SongDrumMachine_exportSong cfg ticksPerStep rand)).
          - int ((ticksPerStep + 1) div 4) \<le> startTick n"
    by (rule exportSong_all) (erule b)
  with m show "- int ((ticksPerStep + 1) div 4) \<le> startTick n" by blast
  show "0 \<le> startTick n" if off: "\<not> isHumanizeOn cfg \<or> timingHumanizeAmount cfg = 0"
  proof -
    have c: "0 \<le> startTick n"
      if "note_of cfg ticksPerStep rand patternData g tick s i k = (Some n, k')"
      for patternData g tick s i k n k'
    proof -
      have "(0::int) \<le> int tick + int (s * ticksPerStep)" by simp
      with note_of_startTick_lower(2) [OF that assms off] show ?thesis by linarith
    qed
    have "\<forall>n \<in> set (emitted (SongDrumMachine_exportSong cfg ticksPerStep rand)). 0 \<le> startTick n"
      by (rule exportSong_all) (erule c)
    with m show ?thesis by blast
  qed
qed

theorem start_tick_lower_bound_witness:
  "\<lparr>pitch = 36, duration = ''16'', startTick = - 32, velocity = Some 30, channel = 10\<rparr>
     \<in> set (emitted (SongDrumMachine_exportSong jitter_config 128 zero_source))
   \<and> - int ((128 + 1) div 4) \<le> (- 32 :: int)
   \<and> \<lparr>pitch = 38, duration = ''16'', startTick = 154, velocity = Some 1, channel = 10\<rparr>
     \<in> set (emitted (SongDrumMachine_exportSong demo_config 128 half_source))
   \<and> (0::int) \<le> 154"
proof -
  have m1: "\<lparr>pitch = 36, duration = ''16'', startTick = - 32, velocity = Some 30, channel = 10\<rparr>
     \<in> set (emitted (SongDrumMachine_exportSong jitter_config 128 zero_source))"
    by code_simp
  have m2: "\<lparr>pitch = 38, duration = ''16'', startTick = 154, velocity = Some 1, channel = 10\<rparr>
     \<in> set (emitted (SongDrumMachine_exportSong demo_config 128 half_source))"
    by code_simp
  have c1: "0 \<le> swingAmount jitter_config" "0 \<le> timingHumanizeAmount jitter_config"
    "timingHumanizeAmount jitter_config \<le> 1" "\<forall>j. 0 \<le> zero_source j \<and> zero_source j < 1"
    by (simp_all add: jitter_config_def demo_config_def zero_source_def)
  have c2: "0 \<le> swingAmount demo_config" "0 \<le> timingHumanizeAmount demo_config"
    "timingHumanizeAmount demo_config \<le> 1" "\<forall>j. 0 \<le> half_source j \<and> half_source j < 1"
    "\<not> isHumanizeOn demo_config"
    by (simp_all add: demo_config_def half_source_def)
  show ?thesis
    using start_tick_lower_bound [OF c1, of "\<lparr>pitch = 36, duration = ''16'', startTick = - 32, velocity = Some 30, channel = 10\<rparr>" 128]
      start_tick_lower_bound [OF c2(1-4), of "\<lparr>pitch = 38, duration = ''16'', startTick = 154, velocity = Some 1, channel = 10\<rparr>" 128]
      m1 m2 c2(5)
    by simp
qed

section \<open>A MIDI note that is 0\<close>

lemma truthy_note_zero:
  assumes "m i = Some 0"
  shows "truthy_note m = truthy_note (m(i := None))"
proof
  fix j show "truthy_note m j = truthy_note (m(i := None)) j"
    using assms by (simp add: truthy_note_def)
qed

lemma note_of_notes_cong:
  assumes "truthy_note (INSTRUMENT_MIDI_NOTES cfg) = truthy_note m'"
  shows "note_of (cfg\<lparr>INSTRUMENT_MIDI_NOTES := m'\<rparr>) ticksPerStep rand patternData g tick s i k
           = note_of cfg ticksPerStep rand patternData g tick s i k"
proof -
  have f: "INSTRUMENT_MIDI_NOTES (cfg\<lparr>INSTRUMENT_MIDI_NOTES := m'\<rparr>) = m'"
    "isHumanizeOn (cfg\<lparr>INSTRUMENT_MIDI_NOTES := m'\<rparr>) = isHumanizeOn cfg"
    "swingAmount (cfg\<lparr>INSTRUMENT_MIDI_NOTES := m'\<rparr>) = swingAmount cfg"
    "timingHumanizeAmount (cfg\<lparr>INSTRUMENT_MIDI_NOTES := m'\<rparr>) = timingHumanizeAmount cfg"
    "velocityHumanizeAmount (cfg\<lparr>INSTRUMENT_MIDI_NOTES := m'\<rparr>) = velocityHumanizeAmount cfg"
    by simp_all
  show ?thesis
    unfolding note_of_def velocityVariation_def timingVariation_def swingDelay_def f assms
    by (rule refl)
qed

lemma notesForThisStep_notes_cong:
  assumes "truthy_note (INSTRUMENT_MIDI_NOTES cfg) = truthy_note m'"
  shows "notesForThisStep (cfg\<lparr>INSTRUMENT_MIDI_NOTES := m'\<rparr>) ticksPerStep rand patternData g tick s is k
           = notesForThisStep cfg ticksPerStep rand patternData g tick s is k"
  by (induction "is" arbitrary: k)
     (simp_all add: note_of_notes_cong [OF assms] cong: prod.case_cong option.case_cong)

lemma step_loop_notes_cong:
  assumes "truthy_note (INSTRUMENT_MIDI_NOTES cfg) = truthy_note m'"
  shows "step_loop (cfg\<lparr>INSTRUMENT_MIDI_NOTES := m'\<rparr>) ticksPerStep rand patternData g numSteps s st
           = step_loop cfg ticksPerStep rand patternData g numSteps s st"
proof (induction "numSteps - s" arbitrary: s st)
  case 0
  then show ?case by (simp add: step_loop.simps)
next
  case (Suc d)
  then have lt: "s < numSteps" and d: "d = numSteps - (s + 1)" by simp_all
  show ?case
    apply (subst step_loop.simps)
    apply (subst (2) step_loop.simps)
    using lt Suc.hyps(1) [OF d]
    by (simp add: notesForThisStep_notes_cong [OF assms] split: prod.splits)
qed

lemma section_step_notes_cong:
  assumes "truthy_note (INSTRUMENT_MIDI_NOTES cfg) = truthy_note m'"
  shows "section_step (cfg\<lparr>INSTRUMENT_MIDI_NOTES := m'\<rparr>) ticksPerStep rand c nxt st
           = section_step cfg ticksPerStep rand c nxt st"
  unfolding section_step_def compile_section_def
  by (simp add: step_loop_notes_cong [OF assms] Let_def
        cong: prod.case_cong option.case_cong sum.case_cong)

lemma compile_song_notes_cong:
  assumes "truthy_note (INSTRUMENT_MIDI_NOTES cfg) = truthy_note m'"
  shows "compile_song (cfg\<lparr>INSTRUMENT_MIDI_NOTES := m'\<rparr>) ticksPerStep rand cs st
           = compile_song cfg ticksPerStep rand cs st"
  by (induction cs arbitrary: st)
     (simp_all add: section_step_notes_cong [OF assms] cong: sum.case_cong)

lemma exportSong_notes_cong:
  assumes "truthy_note (INSTRUMENT_MIDI_NOTES cfg) = truthy_note m'"
  shows "SongDrumMachine_exportSong (cfg\<lparr>INSTRUMENT_MIDI_NOTES := m'\<rparr>) ticksPerStep rand
           = SongDrumMachine_exportSong cfg ticksPerStep rand"
  unfolding SongDrumMachine_exportSong_def
  by (simp add: compile_song_notes_cong [OF assms] cong: sum.case_cong)

lemma rf_note_of_notes_cong:
  assumes "truthy_note (INSTRUMENT_MIDI_NOTES p) = truthy_note m'"
  shows "rf_note_of (p\<lparr>INSTRUMENT_MIDI_NOTES := m'\<rparr>) cur g ticks s i = rf_note_of p cur g ticks s i"
  unfolding rf_note_of_def by (simp add: assms cong: option.case_cong)

lemma rf_notesForThisStep_notes_cong:
  assumes "truthy_note (INSTRUMENT_MIDI_NOTES p) = truthy_note m'"
  shows "rf_notesForThisStep (p\<lparr>INSTRUMENT_MIDI_NOTES := m'\<rparr>) cur g ticks s is
           = rf_notesForThisStep p cur g ticks s is"
  by (induction "is") (simp_all add: rf_note_of_notes_cong [OF assms] cong: sum.case_cong)

lemma rf_step_loop_notes_cong:
  assumes "truthy_note (INSTRUMENT_MIDI_NOTES p) = truthy_note m'"
  shows "rf_step_loop (p\<lparr>INSTRUMENT_MIDI_NOTES := m'\<rparr>) cur g numSteps s st
           = rf_step_loop p cur g numSteps s st"
proof (induction "numSteps - s" arbitrary: s st)
  case 0
  then show ?case by (simp add: rf_step_loop.simps)
next
  case (Suc d)
  then have lt: "s < numSteps" and d: "d = numSteps - (s + 1)" by simp_all
  show ?case
    apply (subst rf_step_loop.simps)
    apply (subst (2) rf_step_loop.simps)
    using lt Suc.hyps(1) [OF d]
    by (simp add: rf_notesForThisStep_notes_cong [OF assms] split: sum.splits)
qed

lemma rf_section_notes_cong:
  assumes "truthy_note (INSTRUMENT_MIDI_NOTES p) = truthy_note m'"
  shows "rf_section (p\<lparr>INSTRUMENT_MIDI_NOTES := m'\<rparr>) cur g numSteps st
           = rf_section p cur g numSteps st"
  unfolding rf_section_def by (simp add: rf_step_loop_notes_cong [OF assms] cong: sum.case_cong)

lemma rf_item_notes_cong:
  assumes "truthy_note (INSTRUMENT_MIDI_NOTES p) = truthy_note m'"
  shows "rf_item (p\<lparr>INSTRUMENT_MIDI_NOTES := m'\<rparr>) rand item st = rf_item p rand item st"
    and "rf_item_fixed (p\<lparr>INSTRUMENT_MIDI_NOTES := m'\<rparr>) rand item st' = rf_item_fixed p rand item st'"
  unfolding rf_item_def rf_item_fixed_def
  by (simp_all add: rf_section_notes_cong [OF assms] Let_def
        cong: prod.case_cong option.case_cong sum.case_cong)

lemma rf_items_notes_cong:
  assumes "truthy_note (INSTRUMENT_MIDI_NOTES p) = truthy_note m'"
  shows "rf_items (p\<lparr>INSTRUMENT_MIDI_NOTES := m'\<rparr>) rand items st = rf_items p rand items st"
  by (induction items arbitrary: st)
     (simp_all add: rf_item_notes_cong [OF assms] cong: sum.case_cong)

lemma rf_items_fixed_notes_cong:
  assumes "truthy_note (INSTRUMENT_MIDI_NOTES p) = truthy_note m'"
  shows "rf_items_fixed (p\<lparr>INSTRUMENT_MIDI_NOTES := m'\<rparr>) rand items st = rf_items_fixed p rand items st"
  by (induction items arbitrary: st)
     (simp_all add: rf_item_notes_cong [OF assms] cong: sum.case_cong)

text \<open>
  Claim C10. An instrument whose MIDI note is the number 0 gives no note, whatever the
  grid says, in all three exporters, and an export with such an entry is the export with
  the entry removed: the same outcome, the same track, the same calls of \<open>Math.random\<close>.
\<close>

theorem zero_note_excluded:
  assumes "INSTRUMENT_MIDI_NOTES cfg i = Some 0" and "INSTRUMENT_MIDI_NOTES p i = Some 0"
  shows "note_of cfg ticksPerStep rand patternData g tick s i k = (None, k)
       \<and> rf_note_of p cur g tick s i = Inr None
       \<and> SongDrumMachine_exportSong cfg ticksPerStep rand
           = SongDrumMachine_exportSong
               (cfg\<lparr>INSTRUMENT_MIDI_NOTES := (INSTRUMENT_MIDI_NOTES cfg)(i := None)\<rparr>) ticksPerStep rand
       \<and> RockForge_exportSong ready p rand
           = RockForge_exportSong ready
               (p\<lparr>INSTRUMENT_MIDI_NOTES := (INSTRUMENT_MIDI_NOTES p)(i := None)\<rparr>) rand
       \<and> RockForge_exportSong_fixed ready p rand
           = RockForge_exportSong_fixed ready
               (p\<lparr>INSTRUMENT_MIDI_NOTES := (INSTRUMENT_MIDI_NOTES p)(i := None)\<rparr>) rand"
proof -
  have a: "note_of cfg ticksPerStep rand patternData g tick s i k = (None, k)"
    using assms(1) by (simp add: note_of_def truthy_note_def)
  have b: "rf_note_of p cur g tick s i = Inr None"
    using assms(2) by (simp add: rf_note_of_def truthy_note_def)
  have "truthy_note (INSTRUMENT_MIDI_NOTES cfg) = truthy_note ((INSTRUMENT_MIDI_NOTES cfg)(i := None))"
    using assms(1) by (rule truthy_note_zero)
  note c = exportSong_notes_cong [OF this, of ticksPerStep rand]
  have t: "truthy_note (INSTRUMENT_MIDI_NOTES p) = truthy_note ((INSTRUMENT_MIDI_NOTES p)(i := None))"
    using assms(2) by (rule truthy_note_zero)
  have d: "RockForge_exportSong ready p rand
           = RockForge_exportSong ready
               (p\<lparr>INSTRUMENT_MIDI_NOTES := (INSTRUMENT_MIDI_NOTES p)(i := None)\<rparr>) rand"
    unfolding RockForge_exportSong_def by (simp add: rf_items_notes_cong [OF t] cong: sum.case_cong)
  have e: "RockForge_exportSong_fixed ready p rand
           = RockForge_exportSong_fixed ready
               (p\<lparr>INSTRUMENT_MIDI_NOTES := (INSTRUMENT_MIDI_NOTES p)(i := None)\<rparr>) rand"
    unfolding RockForge_exportSong_fixed_def by (simp add: rf_items_fixed_notes_cong [OF t] cong: sum.case_cong)
  from a b c d e show ?thesis by simp
qed

theorem zero_note_excluded_witness:
  "note_of muted_snare 128 half_source (Some demo_A) (grid demo_A) 0 1 ''snare'' 0 = (None, 0)
   \<and> SongDrumMachine_exportSong muted_snare 128 half_source
       = SongDrumMachine_exportSong
           (muted_snare\<lparr>INSTRUMENT_MIDI_NOTES := (INSTRUMENT_MIDI_NOTES muted_snare)(''snare'' := None)\<rparr>)
           128 half_source
   \<and> RockForge_exportSong_fixed True fill_first_params half_source
       = RockForge_exportSong_fixed True
           (fill_first_params\<lparr>INSTRUMENT_MIDI_NOTES :=
              (INSTRUMENT_MIDI_NOTES fill_first_params)(''snare'' := None)\<rparr>) half_source"
proof -
  have h: "INSTRUMENT_MIDI_NOTES muted_snare ''snare'' = Some 0"
    "INSTRUMENT_MIDI_NOTES fill_first_params ''snare'' = Some 0"
    by (simp_all add: muted_snare_def fill_first_params_def)
  show ?thesis
    using zero_note_excluded [OF h, of 128 half_source "Some demo_A" "grid demo_A" 0 1 0 demo_A True]
    by simp
qed

section \<open>The velocity source of a fill\<close>













section \<open>The sequencer resolved last\<close>






















end
